theory Spec2Isabelle
  imports Complex_Main
begin

section \<open>Constants of the defender example\<close>

text \<open>
  The module-level constants of \<^verbatim>\<open>defender.py\<close>. Python mixes \<^verbatim>\<open>int\<close> and
  \<^verbatim>\<open>float\<close> freely (\<^verbatim>\<open>SCREEN_WIDTH / 2 - 50\<close> is the float 590.0); here every
  number that takes part in that arithmetic is a real, so a Python float is read as
  the real number it denotes. Only \<^verbatim>\<open>int(...)\<close>, the alpha channel and the results of
  \<^verbatim>\<open>random.randrange\<close> are integers.
\<close>

definition SCREEN_WIDTH :: real where
  "SCREEN_WIDTH = 1280"

definition SCREEN_HEIGHT :: real where
  "SCREEN_HEIGHT = 720"

definition PLAYING_FIELD_WIDTH :: real where
  "PLAYING_FIELD_WIDTH = 5000"

definition PLAYING_FIELD_HEIGHT :: real where
  "PLAYING_FIELD_HEIGHT = 800"

definition MINIMAP_HEIGHT :: real where
  "MINIMAP_HEIGHT = SCREEN_HEIGHT / 4"

definition MAIN_SCREEN_HEIGHT :: real where
  "MAIN_SCREEN_HEIGHT = SCREEN_HEIGHT - MINIMAP_HEIGHT"

definition VIEWPORT_MARGIN :: real where
  "VIEWPORT_MARGIN = SCREEN_WIDTH / 2 - 50"

definition TOP_VIEWPORT_MARGIN :: real where
  "TOP_VIEWPORT_MARGIN = 30"

definition DEFAULT_BOTTOM_VIEWPORT :: real where
  "DEFAULT_BOTTOM_VIEWPORT = - 10"

definition MAX_HORIZONTAL_MOVEMENT_SPEED :: real where
  "MAX_HORIZONTAL_MOVEMENT_SPEED = 10"

definition MAX_VERTICAL_MOVEMENT_SPEED :: real where
  "MAX_VERTICAL_MOVEMENT_SPEED = 5"

definition HORIZONTAL_ACCELERATION :: real where
  "HORIZONTAL_ACCELERATION = 0.5"

definition VERTICAL_ACCELERATION :: real where
  "VERTICAL_ACCELERATION = 0.2"

definition MOVEMENT_DRAG :: real where
  "MOVEMENT_DRAG = 0.08"

definition BULLET_MAX_DISTANCE :: real where
  "BULLET_MAX_DISTANCE = SCREEN_WIDTH * 0.75"

lemmas constants =
  SCREEN_WIDTH_def SCREEN_HEIGHT_def PLAYING_FIELD_WIDTH_def PLAYING_FIELD_HEIGHT_def
  MINIMAP_HEIGHT_def MAIN_SCREEN_HEIGHT_def VIEWPORT_MARGIN_def TOP_VIEWPORT_MARGIN_def
  DEFAULT_BOTTOM_VIEWPORT_def MAX_HORIZONTAL_MOVEMENT_SPEED_def
  MAX_VERTICAL_MOVEMENT_SPEED_def HORIZONTAL_ACCELERATION_def VERTICAL_ACCELERATION_def
  MOVEMENT_DRAG_def BULLET_MAX_DISTANCE_def

section \<open>Sprites\<close>

text \<open>
  Every entity is an \<^verbatim>\<open>arcade.SpriteSolidColor\<close> or a subclass of it. The class of an
  object decides which \<^verbatim>\<open>update\<close> it runs, so it is a field of the object.
\<close>

datatype cls = SpriteSolidColor | Player | Bullet | Particle

record sprite =
  cls :: cls
  center_x :: real
  center_y :: real
  change_x :: real
  change_y :: real
  width :: real
  height :: real
  alpha :: int

text \<open>
  Modelled from the spec: the constructor of \<^verbatim>\<open>arcade.SpriteSolidColor\<close>, whose class
  is not among the sources. A new sprite has the given size, sits at the origin, is at
  rest (the particle loop of \<^verbatim>\<open>on_update\<close> relies on a new particle having velocity
  zero) and is opaque: the spec's fade level "starts opaque", alpha 255.
\<close>

definition SpriteSolidColor_init :: "cls \<Rightarrow> real \<Rightarrow> real \<Rightarrow> sprite" where
  "SpriteSolidColor_init c w h =
     \<lparr>cls = c, center_x = 0, center_y = 0, change_x = 0, change_y = 0,
      width = w, height = h, alpha = 255\<rparr>"

text \<open>
  Modelled from the spec: the edges of a sprite's axis-aligned bounding box, which the
  sprite class computes from the centre and the size, and the setters of the edges,
  which move the centre.
\<close>

definition left :: "'a sprite_scheme \<Rightarrow> real" where
  "left s = center_x s - width s / 2"

definition right :: "'a sprite_scheme \<Rightarrow> real" where
  "right s = center_x s + width s / 2"

definition bottom :: "'a sprite_scheme \<Rightarrow> real" where
  "bottom s = center_y s - height s / 2"

definition top_edge :: "'a sprite_scheme \<Rightarrow> real" where
  "top_edge s = center_y s + height s / 2"

definition set_left :: "real \<Rightarrow> 'a sprite_scheme \<Rightarrow> 'a sprite_scheme" where
  "set_left v s = s\<lparr>center_x := center_x s + (v - left s)\<rparr>"

definition set_right :: "real \<Rightarrow> 'a sprite_scheme \<Rightarrow> 'a sprite_scheme" where
  "set_right v s = s\<lparr>center_x := center_x s + (v - right s)\<rparr>"

definition set_bottom :: "real \<Rightarrow> 'a sprite_scheme \<Rightarrow> 'a sprite_scheme" where
  "set_bottom v s = s\<lparr>center_y := center_y s + (v - bottom s)\<rparr>"

definition set_top :: "real \<Rightarrow> 'a sprite_scheme \<Rightarrow> 'a sprite_scheme" where
  "set_top v s = s\<lparr>center_y := center_y s + (v - top_edge s)\<rparr>"

lemmas edges = left_def right_def bottom_def top_edge_def
  set_left_def set_right_def set_bottom_def set_top_def

section \<open>The player\<close>

record player = sprite +
  face_right :: bool

text \<open>\<^verbatim>\<open>Player.__init__\<close>: a 40 by 10 sprite that faces right.\<close>

definition Player_init :: player where
  "Player_init =
     \<lparr>cls = Player, center_x = 0, center_y = 0, change_x = 0, change_y = 0,
      width = 40, height = 10, alpha = 255, face_right = True\<rparr>"

definition accelerate_up :: "player \<Rightarrow> player" where
  "accelerate_up p =
     (let p1 = p\<lparr>change_y := change_y p + VERTICAL_ACCELERATION\<rparr>
      in if change_y p1 > MAX_VERTICAL_MOVEMENT_SPEED
         then p1\<lparr>change_y := MAX_VERTICAL_MOVEMENT_SPEED\<rparr> else p1)"

definition accelerate_down :: "player \<Rightarrow> player" where
  "accelerate_down p =
     (let p1 = p\<lparr>change_y := change_y p - VERTICAL_ACCELERATION\<rparr>
      in if change_y p1 < - MAX_VERTICAL_MOVEMENT_SPEED
         then p1\<lparr>change_y := - MAX_VERTICAL_MOVEMENT_SPEED\<rparr> else p1)"

definition accelerate_right :: "player \<Rightarrow> player" where
  "accelerate_right p =
     (let p1 = p\<lparr>face_right := True\<rparr>;
          p2 = p1\<lparr>change_x := change_x p1 + HORIZONTAL_ACCELERATION\<rparr>
      in if change_x p2 > MAX_HORIZONTAL_MOVEMENT_SPEED
         then p2\<lparr>change_x := MAX_HORIZONTAL_MOVEMENT_SPEED\<rparr> else p2)"

definition accelerate_left :: "player \<Rightarrow> player" where
  "accelerate_left p =
     (let p1 = p\<lparr>face_right := False\<rparr>;
          p2 = p1\<lparr>change_x := change_x p1 - HORIZONTAL_ACCELERATION\<rparr>
      in if change_x p2 < - MAX_HORIZONTAL_MOVEMENT_SPEED
         then p2\<lparr>change_x := - MAX_HORIZONTAL_MOVEMENT_SPEED\<rparr> else p2)"

text \<open>
  \<^verbatim>\<open>Player.update\<close> in its three parts, as the comments of the source name them.
  The drag is three \<^verbatim>\<open>if\<close> statements in a row per axis, not an \<^verbatim>\<open>elif\<close> chain: a
  velocity below the drag is first pushed across zero, then pushed back, then zeroed.
\<close>

definition Player_move :: "player \<Rightarrow> player" where
  "Player_move p =
     (let p1 = p\<lparr>center_x := center_x p + change_x p\<rparr>
      in p1\<lparr>center_y := center_y p1 + change_y p1\<rparr>)"

definition Player_drag_x :: "player \<Rightarrow> player" where
  "Player_drag_x p =
     (let p1 = (if change_x p > 0 then p\<lparr>change_x := change_x p - MOVEMENT_DRAG\<rparr> else p);
          p2 = (if change_x p1 < 0 then p1\<lparr>change_x := change_x p1 + MOVEMENT_DRAG\<rparr> else p1)
      in if \<bar>change_x p2\<bar> < MOVEMENT_DRAG then p2\<lparr>change_x := 0\<rparr> else p2)"

definition Player_drag_y :: "player \<Rightarrow> player" where
  "Player_drag_y p =
     (let p1 = (if change_y p > 0 then p\<lparr>change_y := change_y p - MOVEMENT_DRAG\<rparr> else p);
          p2 = (if change_y p1 < 0 then p1\<lparr>change_y := change_y p1 + MOVEMENT_DRAG\<rparr> else p1)
      in if \<bar>change_y p2\<bar> < MOVEMENT_DRAG then p2\<lparr>change_y := 0\<rparr> else p2)"

definition Player_drag :: "player \<Rightarrow> player" where
  "Player_drag p = Player_drag_y (Player_drag_x p)"

definition Player_check_bounds :: "player \<Rightarrow> player" where
  "Player_check_bounds p =
     (let p1 = (if left p < 0 then set_left 0 p
                else if right p > PLAYING_FIELD_WIDTH - 1
                then set_right (PLAYING_FIELD_WIDTH - 1) p else p)
      in if bottom p1 < 0 then set_bottom 0 p1
         else if top_edge p1 > SCREEN_HEIGHT - 1
         then set_top (SCREEN_HEIGHT - 1) p1 else p1)"

definition Player_update :: "player \<Rightarrow> player" where
  "Player_update p = Player_check_bounds (Player_drag (Player_move p))"

section \<open>The game state\<close>

text \<open>
  Sprites are objects: a sprite list holds references, and the same object can be in
  a list more than once. The heap maps a reference to the object's fields;
  \<open>next_ref\<close> is the first reference not yet handed out. The player is the one
  object of \<^verbatim>\<open>player_list\<close>, a list that the collision loop never reads, so it is kept
  by value.
\<close>

type_synonym ref = nat

record game =
  heap :: "ref \<Rightarrow> sprite"
  next_ref :: ref
  player_sprite :: player
  star_sprite_list :: "ref list"
  enemy_sprite_list :: "ref list"
  bullet_sprite_list :: "ref list"
  left_pressed :: bool
  right_pressed :: bool
  up_pressed :: bool
  down_pressed :: bool
  view_bottom :: int
  view_left :: int

text \<open>
  The first statements of \<^verbatim>\<open>on_update\<close>: the input latch chooses the accelerations,
  then \<^verbatim>\<open>self.player_list.update()\<close> runs \<^verbatim>\<open>Player.update\<close> on the one player.
\<close>

definition on_update_player :: "game \<Rightarrow> game" where
  "on_update_player g =
     (let g1 = (if up_pressed g \<and> \<not> down_pressed g
                then g\<lparr>player_sprite := accelerate_up (player_sprite g)\<rparr>
                else if down_pressed g \<and> \<not> up_pressed g
                then g\<lparr>player_sprite := accelerate_down (player_sprite g)\<rparr> else g);
          g2 = (if left_pressed g1 \<and> \<not> right_pressed g1
                then g1\<lparr>player_sprite := accelerate_left (player_sprite g1)\<rparr>
                else if right_pressed g1 \<and> \<not> left_pressed g1
                then g1\<lparr>player_sprite := accelerate_right (player_sprite g1)\<rparr> else g1)
      in g2\<lparr>player_sprite := Player_update (player_sprite g2)\<rparr>)"



section \<open>Bullets and particles\<close>

text \<open>
  Modelled from the spec: \<^verbatim>\<open>arcade.Sprite.update\<close>, the update that a plain
  \<^verbatim>\<open>arcade.SpriteSolidColor\<close> inherits; the class is not among the sources. The spec
  has bullets and particles "integrate position unconditionally", and that is all the
  base class does: it moves the sprite by its velocity and never removes it. Like the
  updates of the subclasses below, it returns the updated object and whether it called
  \<^verbatim>\<open>remove_from_sprite_lists\<close>.
\<close>

definition Sprite_update :: "sprite \<Rightarrow> sprite \<times> bool" where
  "Sprite_update s =
     (let s1 = s\<lparr>center_x := center_x s + change_x s\<rparr>;
          s2 = s1\<lparr>center_y := center_y s1 + change_y s1\<rparr>
      in (s2, False))"

text \<open>
  \<^verbatim>\<open>Bullet\<close> adds the travelled distance to the fields of a sprite, and its \<^verbatim>\<open>update\<close>
  removes the bullet once that distance is past \<open>BULLET_MAX_DISTANCE\<close>. The class is
  defined in the source but constructed nowhere in it. The sums are the exact sums of
  the reals; the comparison with the threshold is the one the code makes on the sum
  it has computed.
\<close>

record bullet = sprite +
  distance :: real

definition Bullet_init :: "real \<Rightarrow> real \<Rightarrow> bullet" where
  "Bullet_init w h =
     \<lparr>cls = Bullet, center_x = 0, center_y = 0, change_x = 0, change_y = 0,
      width = w, height = h, alpha = 255, distance = 0\<rparr>"

definition Bullet_update :: "bullet \<Rightarrow> bullet \<times> bool" where
  "Bullet_update b =
     (let b1 = b\<lparr>center_x := center_x b + change_x b\<rparr>;
          b2 = b1\<lparr>center_y := center_y b1 + change_y b1\<rparr>;
          b3 = b2\<lparr>distance := distance b2 + change_x b2\<rparr>
      in (b3, distance b3 > BULLET_MAX_DISTANCE))"

definition Particle_update :: "sprite \<Rightarrow> sprite \<times> bool" where
  "Particle_update s =
     (let s1 = s\<lparr>center_x := center_x s + change_x s\<rparr>;
          s2 = s1\<lparr>center_y := center_y s1 + change_y s1\<rparr>;
          s3 = s2\<lparr>alpha := alpha s2 - 5\<rparr>
      in (s3, alpha s3 \<le> 0))"

text \<open>
  A sprite list calls \<^verbatim>\<open>update\<close> on a sprite once per tick for as long as the sprite
  is in the list. \<open>Sprite_ticks n s\<close> is a plain sprite after \<open>n\<close> ticks, and \<open>None\<close>
  once an update has removed it; likewise \<open>Particle_ticks\<close> for a particle.
\<close>

fun Sprite_ticks :: "nat \<Rightarrow> sprite \<Rightarrow> sprite option" where
  "Sprite_ticks 0 s = Some s"
| "Sprite_ticks (Suc n) s =
     (case Sprite_ticks n s of
        None \<Rightarrow> None
      | Some s1 \<Rightarrow> (case Sprite_update s1 of (s2, removed) \<Rightarrow> if removed then None else Some s2))"

fun Particle_ticks :: "nat \<Rightarrow> sprite \<Rightarrow> sprite option" where
  "Particle_ticks 0 s = Some s"
| "Particle_ticks (Suc n) s =
     (case Particle_ticks n s of
        None \<Rightarrow> None
      | Some s1 \<Rightarrow> (case Particle_update s1 of (s2, removed) \<Rightarrow> if removed then None else Some s2))"

section \<open>Key presses\<close>

datatype key = UP | DOWN | LEFT | RIGHT | SPACE | Other_key int

text \<open>
  The horizontal velocity \<^verbatim>\<open>on_key_press\<close> gives the sprite it fires:
  \<^verbatim>\<open>max(12, abs(change_x) + 10)\<close>, times \<^verbatim>\<open>-1\<close> when the player does not face right.
\<close>

definition fired_change_x :: "player \<Rightarrow> real" where
  "fired_change_x p =
     (let v = max 12 (\<bar>change_x p\<bar> + 10)
      in if \<not> face_right p then v * (- 1) else v)"

text \<open>
  \<^verbatim>\<open>on_key_press\<close>. The fired sprite is a plain \<^verbatim>\<open>arcade.SpriteSolidColor(35, 3, ...)\<close>,
  a new object appended to the bullet list.
\<close>

definition on_key_press :: "key \<Rightarrow> game \<Rightarrow> game" where
  "on_key_press k g =
     (case k of
        UP \<Rightarrow> g\<lparr>up_pressed := True\<rparr>
      | DOWN \<Rightarrow> g\<lparr>down_pressed := True\<rparr>
      | LEFT \<Rightarrow> g\<lparr>left_pressed := True\<rparr>
      | RIGHT \<Rightarrow> g\<lparr>right_pressed := True\<rparr>
      | SPACE \<Rightarrow>
          (let b = (SpriteSolidColor_init SpriteSolidColor 35 3)
                     \<lparr>center_x := center_x (player_sprite g),
                      center_y := center_y (player_sprite g),
                      change_x := fired_change_x (player_sprite g)\<rparr>
           in g\<lparr>heap := (heap g)(next_ref g := b),
                next_ref := Suc (next_ref g),
                bullet_sprite_list := bullet_sprite_list g @ [next_ref g]\<rparr>)
      | Other_key _ \<Rightarrow> g)"

definition on_key_release :: "key \<Rightarrow> game \<Rightarrow> game" where
  "on_key_release k g =
     (case k of
        UP \<Rightarrow> g\<lparr>up_pressed := False\<rparr>
      | DOWN \<Rightarrow> g\<lparr>down_pressed := False\<rparr>
      | LEFT \<Rightarrow> g\<lparr>left_pressed := False\<rparr>
      | RIGHT \<Rightarrow> g\<lparr>right_pressed := False\<rparr>
      | _ \<Rightarrow> g)"

section \<open>The collision loop of the update step\<close>

text \<open>
  Modelled from the spec: \<^verbatim>\<open>arcade.check_for_collision_with_list\<close>, which is not among
  the sources. The spec has it test the overlap of axis-aligned bounding boxes; it
  returns the sprites of the list that overlap the given one, in the list's order.
\<close>

definition check_for_collision :: "sprite \<Rightarrow> sprite \<Rightarrow> bool" where
  "check_for_collision a b \<longleftrightarrow>
     left a < right b \<and> left b < right a \<and> bottom a < top_edge b \<and> bottom b < top_edge a"

definition check_for_collision_with_list :: "ref \<Rightarrow> ref list \<Rightarrow> game \<Rightarrow> ref list" where
  "check_for_collision_with_list r rs g =
     filter (\<lambda>e. check_for_collision (heap g r) (heap g e)) rs"

text \<open>
  Modelled from the spec: \<^verbatim>\<open>Sprite.remove_from_sprite_lists\<close>, which takes the sprite
  out of every list that holds it.
\<close>

definition remove_from_sprite_lists :: "ref \<Rightarrow> game \<Rightarrow> game" where
  "remove_from_sprite_lists r g =
     g\<lparr>star_sprite_list := removeAll r (star_sprite_list g),
       enemy_sprite_list := removeAll r (enemy_sprite_list g),
       bullet_sprite_list := removeAll r (bullet_sprite_list g)\<rparr>"

text \<open>
  The random numbers are an input: the list of the values the successive calls of
  \<^verbatim>\<open>random.randrange(-2, 3)\<close> return. A loop that needs a number when the list is used
  up yields \<open>None\<close>: the model cannot tell whether the \<^verbatim>\<open>while\<close> ever ends.

  The \<^verbatim>\<open>while\<close> loop of one particle. Its body sets the velocity and the position and
  appends the particle to the bullet list, all of it once per roll.
\<close>

fun reroll :: "ref \<Rightarrow> ref \<Rightarrow> game \<Rightarrow> int list \<Rightarrow> (game \<times> int list) option" where
  "reroll particle enemy g rs =
     (if change_y (heap g particle) = 0 \<and> change_x (heap g particle) = 0 then
        (case rs of
           dy # dx # rs' \<Rightarrow>
             reroll particle enemy
               (g\<lparr>heap := (heap g)(particle := (heap g particle)
                    \<lparr>change_y := of_int dy, change_x := of_int dx,
                     center_x := center_x (heap g enemy),
                     center_y := center_y (heap g enemy)\<rparr>),
                  bullet_sprite_list := bullet_sprite_list g @ [particle]\<rparr>) rs'
         | _ \<Rightarrow> None)
      else Some (g, rs))"

declare reroll.simps [simp del]

text \<open>\<^verbatim>\<open>Particle(4, 4, arcade.color.RED)\<close>: a new object.\<close>

definition Particle_new :: "game \<Rightarrow> ref \<times> game" where
  "Particle_new g =
     (next_ref g,
      g\<lparr>heap := (heap g)(next_ref g := SpriteSolidColor_init Particle 4 4),
        next_ref := Suc (next_ref g)\<rparr>)"

text \<open>\<^verbatim>\<open>for i in range(10)\<close>, counting the particles still to make.\<close>

fun spawn_particles :: "nat \<Rightarrow> ref \<Rightarrow> game \<Rightarrow> int list \<Rightarrow> (game \<times> int list) option" where
  "spawn_particles 0 enemy g rs = Some (g, rs)"
| "spawn_particles (Suc n) enemy g rs =
     (case Particle_new g of
        (particle, g1) \<Rightarrow>
          (case reroll particle enemy g1 rs of
             None \<Rightarrow> None
           | Some (g2, rs2) \<Rightarrow> spawn_particles n enemy g2 rs2))"

text \<open>\<^verbatim>\<open>for enemy in enemy_hit_list\<close>.\<close>

fun hit_loop :: "ref list \<Rightarrow> game \<Rightarrow> int list \<Rightarrow> (game \<times> int list) option" where
  "hit_loop [] g rs = Some (g, rs)"
| "hit_loop (enemy # hits) g rs =
     (case spawn_particles 10 enemy (remove_from_sprite_lists enemy g) rs of
        None \<Rightarrow> None
      | Some (g1, rs1) \<Rightarrow> hit_loop hits g1 rs1)"

text \<open>
  \<^verbatim>\<open>for bullet in self.bullet_sprite_list\<close>. Python's list iterator goes by index and
  looks at the length of the list at every step, so it also visits the particles that
  the body appends.
\<close>

function bullet_loop :: "nat \<Rightarrow> game \<Rightarrow> int list \<Rightarrow> (game \<times> int list) option" where
  "bullet_loop i g rs =
     (if i < length (bullet_sprite_list g) then
        (case hit_loop (check_for_collision_with_list (bullet_sprite_list g ! i)
                          (enemy_sprite_list g) g) g rs of
           None \<Rightarrow> None
         | Some (g1, rs1) \<Rightarrow> bullet_loop (Suc i) g1 rs1)
      else Some (g, rs))"
  by pat_completeness auto

lemma reroll_lists:
  "reroll p e g rs = Some (g', rs') \<Longrightarrow>
   enemy_sprite_list g' = enemy_sprite_list g \<and> star_sprite_list g' = star_sprite_list g \<and>
   next_ref g' = next_ref g \<and> player_sprite g' = player_sprite g"
proof (induction p e g rs rule: reroll.induct)
  case (1 p e g rs)
  show ?case
  proof (cases "change_y (heap g p) = 0 \<and> change_x (heap g p) = 0")
    case False
    with "1.prems" show ?thesis by (simp add: reroll.simps)
  next
    case True
    with "1.prems" obtain dy dx rs0 where rs: "rs = dy # dx # rs0"
      by (cases rs; cases "tl rs") (auto simp: reroll.simps)
    from "1.IH"[OF True rs refl] "1.prems" True rs show ?thesis
      by (simp add: reroll.simps)
  qed
qed

lemma spawn_particles_enemies:
  "spawn_particles n e g rs = Some (g', rs') \<Longrightarrow> enemy_sprite_list g' = enemy_sprite_list g"
proof (induction n arbitrary: g rs)
  case 0
  then show ?case by simp
next
  case (Suc n)
  then show ?case
    by (auto simp: Particle_new_def split: option.splits dest!: reroll_lists)
qed

lemma hit_loop_enemies:
  "hit_loop hits g rs = Some (g', rs') \<Longrightarrow>
   enemy_sprite_list g' = filter (\<lambda>e. e \<notin> set hits) (enemy_sprite_list g)"
proof (induction hits arbitrary: g rs)
  case Nil
  then show ?case by simp
next
  case (Cons h hits)
  from Cons.prems obtain g1 rs1 where
    s: "spawn_particles 10 h (remove_from_sprite_lists h g) rs = Some (g1, rs1)" and
    r: "hit_loop hits g1 rs1 = Some (g', rs')"
    by (auto split: option.splits)
  from spawn_particles_enemies[OF s]
  have "enemy_sprite_list g1 = removeAll h (enemy_sprite_list g)"
    by (simp add: remove_from_sprite_lists_def)
  with Cons.IH[OF r] show ?case
    by (auto simp: removeAll_filter_not_eq intro!: filter_cong)
qed

lemma hit_loop_shrinks:
  assumes "hit_loop (check_for_collision_with_list b (enemy_sprite_list g) g) g rs = Some (g', rs')"
  shows "length (enemy_sprite_list g') < length (enemy_sprite_list g) \<or>
         (g' = g \<and> rs' = rs)"
proof (cases "check_for_collision_with_list b (enemy_sprite_list g) g")
  case Nil
  with assms show ?thesis by simp
next
  case (Cons h hits)
  then have "h \<in> set (check_for_collision_with_list b (enemy_sprite_list g) g)"
    by simp
  then have h: "h \<in> set (enemy_sprite_list g)"
    by (simp add: check_for_collision_with_list_def)
  have "enemy_sprite_list g' = filter (\<lambda>e. e \<notin> set (h # hits)) (enemy_sprite_list g)"
    using hit_loop_enemies assms Cons by metis
  with h show ?thesis
    by (simp add: length_filter_less)
qed

termination bullet_loop
proof (relation "measures [\<lambda>(i, g, rs). length (enemy_sprite_list g),
                            \<lambda>(i, g, rs). length (bullet_sprite_list g) - i]")
  show "wf (measures [\<lambda>(i, g, rs). length (enemy_sprite_list g),
                            \<lambda>(i, g, rs). length (bullet_sprite_list g) - i])"
    by simp
next
  fix i :: nat and g :: game and rs :: "int list" and x2 :: "game \<times> int list" and g1 rs1
  assume i: "i < length (bullet_sprite_list g)"
    and h: "hit_loop (check_for_collision_with_list (bullet_sprite_list g ! i)
                          (enemy_sprite_list g) g) g rs = Some x2"
    and x: "(g1, rs1) = x2"
  from h x hit_loop_shrinks[of "bullet_sprite_list g ! i" g rs g1 rs1]
  have "length (enemy_sprite_list g1) < length (enemy_sprite_list g) \<or> (g1 = g \<and> rs1 = rs)"
    by simp
  with i show "((Suc i, g1, rs1), i, g, rs)
       \<in> measures [\<lambda>(i, g, rs). length (enemy_sprite_list g),
                            \<lambda>(i, g, rs). length (bullet_sprite_list g) - i]"
    by auto
qed

declare bullet_loop.simps [simp del]

text \<open>The collision loop as \<^verbatim>\<open>on_update\<close> runs it: from the first entry of the list.\<close>

definition on_update_collisions :: "game \<Rightarrow> int list \<Rightarrow> (game \<times> int list) option" where
  "on_update_collisions g rs = bullet_loop 0 g rs"

section \<open>The camera\<close>

text \<open>Python's \<^verbatim>\<open>int(x)\<close> on a float: truncation towards zero.\<close>

definition py_int :: "real \<Rightarrow> int" where
  "py_int x = (if 0 \<le> x then \<lfloor>x\<rfloor> else \<lceil>x\<rceil>)"

text \<open>
  The scrolling at the end of \<^verbatim>\<open>on_update\<close>. \<open>scroll_x\<close> is \<^verbatim>\<open>self.view_left\<close> after
  "Scroll left" and "Scroll right", \<open>scroll_y\<close> is \<^verbatim>\<open>self.view_bottom\<close> after
  "Scroll up"; the last two statements truncate both. The sums and differences are
  those of the reals: the offset that the code computes in floating point can differ
  from \<open>scroll_x\<close> by the rounding of a few operations, which is why the statement
  about the margins is one that leaves room for it.
\<close>

definition scroll_x :: "real \<Rightarrow> player \<Rightarrow> real" where
  "scroll_x vl p =
     (let left_boundary = vl + VIEWPORT_MARGIN;
          vl1 = (if left p < left_boundary then vl - (left_boundary - left p) else vl);
          right_boundary = vl1 + SCREEN_WIDTH - VIEWPORT_MARGIN
      in if right p > right_boundary then vl1 + (right p - right_boundary) else vl1)"

definition scroll_y :: "player \<Rightarrow> real" where
  "scroll_y p =
     (let vb = DEFAULT_BOTTOM_VIEWPORT;
          top_boundary = vb + SCREEN_HEIGHT - TOP_VIEWPORT_MARGIN - MINIMAP_HEIGHT
      in if top_edge p > top_boundary then vb + (top_edge p - top_boundary) else vb)"

definition on_update_scroll :: "game \<Rightarrow> game" where
  "on_update_scroll g =
     g\<lparr>view_left := py_int (scroll_x (real_of_int (view_left g)) (player_sprite g)),
       view_bottom := py_int (scroll_y (player_sprite g))\<rparr>"

section \<open>Rendering\<close>

text \<open>
  \<^verbatim>\<open>on_draw\<close> only issues calls to the drawing backend (arcade, pyglet and OpenGL), in
  a fixed order, with arguments it computes from the camera offsets and the sprite
  lists. The backend is a parameter of the model: a function that runs one call on
  the state of the window and the GPU and either returns or raises.
\<close>

datatype color = WHITE | DARK_GREEN

datatype framebuffer = Minimap_screen | Play_screen | Window

datatype draw_call =
    Start_render
  | Use framebuffer
  | Clear framebuffer
  | Set_viewport real real real real
  | Draw "sprite list"
  | Draw_line real real real real color
  | GlDisable_BLEND
  | Glow_render
  | GlEnable_BLEND
  | Draw_rectangle_filled real real real real color
  | Texture_use nat
  | Quad_render
  | Draw_rectangle_outline real real real real color

text \<open>
  What a call can raise. Python's \<^verbatim>\<open>except Exception\<close> catches the instances of
  \<^verbatim>\<open>Exception\<close> and of its subclasses (named here by their class); the three built-in
  exceptions that derive from \<^verbatim>\<open>BaseException\<close> directly are not among them.
\<close>

datatype exc = Exception string | KeyboardInterrupt | SystemExit | GeneratorExit

fun isinstance_Exception :: "exc \<Rightarrow> bool" where
  "isinstance_Exception (Exception _) = True"
| "isinstance_Exception _ = False"

text \<open>The calls of the \<^verbatim>\<open>try\<close> block, in the order of the source.\<close>

definition on_draw_calls :: "game \<Rightarrow> draw_call list" where
  "on_draw_calls g =
     (let vl = real_of_int (view_left g);
          vb = real_of_int (view_bottom g);
          enemies = map (heap g) (enemy_sprite_list g);
          players = [sprite.truncate (player_sprite g)];
          stars = map (heap g) (star_sprite_list g);
          bullets = map (heap g) (bullet_sprite_list g);
          width_ratio = SCREEN_WIDTH / PLAYING_FIELD_WIDTH;
          height_ratio = MINIMAP_HEIGHT / PLAYING_FIELD_HEIGHT;
          w = width_ratio * SCREEN_WIDTH;
          h = height_ratio * MAIN_SCREEN_HEIGHT;
          x = (vl + SCREEN_WIDTH / 2) * width_ratio + vl;
          y = vb + h / 2 + (SCREEN_HEIGHT - MINIMAP_HEIGHT) + vb * height_ratio
      in [Start_render,
          Use Minimap_screen,
          Clear Minimap_screen,
          Set_viewport 0 PLAYING_FIELD_WIDTH 0 SCREEN_HEIGHT,
          Draw enemies,
          Draw players,
          Use Play_screen,
          Clear Play_screen,
          Set_viewport vl (SCREEN_WIDTH + vl) vb (SCREEN_HEIGHT + vb),
          Draw stars,
          Draw bullets,
          Draw_line 0 0 PLAYING_FIELD_WIDTH 0 WHITE,
          Use Window,
          Set_viewport vl (SCREEN_WIDTH + vl) vb (SCREEN_HEIGHT + vb),
          GlDisable_BLEND,
          Glow_render,
          GlEnable_BLEND,
          Draw enemies,
          Draw players,
          Draw_line 0 0 PLAYING_FIELD_WIDTH 0 WHITE,
          Draw_rectangle_filled (SCREEN_WIDTH - SCREEN_WIDTH / 2 + vl)
            (SCREEN_HEIGHT - SCREEN_HEIGHT / 8 + vb) SCREEN_WIDTH (SCREEN_HEIGHT / 4) DARK_GREEN,
          Texture_use 0,
          Quad_render,
          Draw_rectangle_outline x y w h WHITE])"

text \<open>
  The body of a \<^verbatim>\<open>try\<close>: the calls run in order until one raises; the calls after it
  do not run.
\<close>

fun try_calls ::
  "(draw_call \<Rightarrow> 'w \<Rightarrow> exc option \<times> 'w) \<Rightarrow> draw_call list \<Rightarrow> 'w \<Rightarrow> exc option \<times> 'w" where
  "try_calls backend [] w = (None, w)"
| "try_calls backend (c # cs) w =
     (case backend c w of
        (Some e, w1) \<Rightarrow> (Some e, w1)
      | (None, w1) \<Rightarrow> try_calls backend cs w1)"

text \<open>
  \<^verbatim>\<open>on_draw\<close>: the \<^verbatim>\<open>try\<close> block with its handler \<^verbatim>\<open>except Exception\<close>, which prints
  the stack trace. The result says how the method ended, the state of the backend, and
  the exceptions whose traces were printed. The method assigns to no attribute of the
  game, so the game is an argument only.
\<close>

datatype outcome = Returned | Raised exc

definition on_draw ::
  "(draw_call \<Rightarrow> 'w \<Rightarrow> exc option \<times> 'w) \<Rightarrow> game \<Rightarrow> 'w \<Rightarrow> outcome \<times> 'w \<times> exc list" where
  "on_draw backend g w =
     (case try_calls backend (on_draw_calls g) w of
        (None, w1) \<Rightarrow> (Returned, w1, [])
      | (Some e, w1) \<Rightarrow>
          if isinstance_Exception e then (Returned, w1, [e]) else (Raised e, w1, []))"

section \<open>Predicates of the statements\<close>

text \<open>
  The number of complete pairs of rolls, from the front of the list, that are not
  \<open>(0, 0)\<close>: each of them ends the \<^verbatim>\<open>while\<close> loop of one particle.
\<close>

fun nonzero_pairs :: "int list \<Rightarrow> nat" where
  "nonzero_pairs (dy # dx # rs) = (if dy = 0 \<and> dx = 0 then 0 else 1) + nonzero_pairs rs"
| "nonzero_pairs _ = 0"

text \<open>
  The sprite lists of a game are in order when every reference they hold has been
  handed out and no object is both a bullet and an enemy.
\<close>

definition lists_ok :: "game \<Rightarrow> bool" where
  "lists_ok g \<longleftrightarrow>
     list_all (\<lambda>r. r < next_ref g) (bullet_sprite_list g) \<and>
     list_all (\<lambda>r. r < next_ref g) (enemy_sprite_list g) \<and>
     list_all (\<lambda>r. r \<notin> set (enemy_sprite_list g)) (bullet_sprite_list g)"

text \<open>
  \<open>burst_particle g r x y\<close>: the object \<open>r\<close> is in the bullet list of \<open>g\<close>, is a
  \<^verbatim>\<open>Particle\<close>, sits at \<open>(x, y)\<close> and has a velocity other than zero.
\<close>

definition burst_particle :: "game \<Rightarrow> ref \<Rightarrow> real \<Rightarrow> real \<Rightarrow> bool" where
  "burst_particle g r x y \<longleftrightarrow>
     r \<in> set (bullet_sprite_list g) \<and> cls (heap g r) = Particle \<and>
     center_x (heap g r) = x \<and> center_y (heap g r) = y \<and>
     \<not> (change_y (heap g r) = 0 \<and> change_x (heap g r) = 0)"

text \<open>
  \<open>burst_at g n x y\<close>: the ten objects \<open>n, \<dots>, n + 9\<close> are particles of a burst at
  \<open>(x, y)\<close> in the bullet list of \<open>g\<close>.
\<close>

definition burst_at :: "game \<Rightarrow> ref \<Rightarrow> real \<Rightarrow> real \<Rightarrow> bool" where
  "burst_at g n x y \<longleftrightarrow> list_all (\<lambda>r. burst_particle g r x y) [n..<n + 10]"

section \<open>States and inputs of the examples\<close>

text \<open>
  The game after \<^verbatim>\<open>setup\<close>, without stars and enemies: the player at (50, 50), at
  rest, no key pressed, the camera at the origin.
\<close>

definition game0 :: game where
  "game0 =
     \<lparr>heap = (\<lambda>_. SpriteSolidColor_init SpriteSolidColor 0 0), next_ref = 0,
      player_sprite = Player_init\<lparr>center_x := 50, center_y := 50\<rparr>,
      star_sprite_list = [], enemy_sprite_list = [], bullet_sprite_list = [],
      left_pressed = False, right_pressed = False, up_pressed = False, down_pressed = False,
      view_bottom = 0, view_left = 0\<rparr>"

text \<open>The player at full speed to the right and downwards, both keys held.\<close>

definition game_full_speed :: game where
  "game_full_speed =
     game0\<lparr>player_sprite := (player_sprite game0)\<lparr>change_x := 10, change_y := - 5\<rparr>,
           right_pressed := True, down_pressed := True\<rparr>"

text \<open>A player that a step would carry out of the field on the left and at the top.\<close>

definition player_outside :: player where
  "player_outside = Player_init\<lparr>center_x := - 3, center_y := 900, change_x := - 10, change_y := 5\<rparr>"


text \<open>A new particle: opaque, alpha 255.\<close>

definition particle_new :: sprite where
  "particle_new = SpriteSolidColor_init Particle 4 4"

text \<open>The initial game with the player moving right at speed 8, facing right.\<close>

definition game_speed_8 :: game where
  "game_speed_8 = game0\<lparr>player_sprite := (player_sprite game0)\<lparr>change_x := 8\<rparr>\<rparr>"

text \<open>
  The first tick of a game in which the left key is held: the player moves from
  \<open>x = 50\<close> to \<open>x = 49.5\<close>.
\<close>

definition game_left_held :: game where
  "game_left_held = on_update_player (game0\<lparr>left_pressed := True\<rparr>)"

text \<open>A player object with the given position, velocity and facing.\<close>

definition player_at :: "real \<Rightarrow> real \<Rightarrow> real \<Rightarrow> real \<Rightarrow> bool \<Rightarrow> player" where
  "player_at x y vx vy f =
     \<lparr>cls = Player, center_x = x, center_y = y, change_x = vx, change_y = vy,
      width = 40, height = 10, alpha = 255, face_right = f\<rparr>"

text \<open>
  Two backends for the examples: one whose \<^verbatim>\<open>glow.render\<close> fails with an exception class
  of the \<^verbatim>\<open>Exception\<close> hierarchy, one that is interrupted from the keyboard there. The
  state of either backend is the number of calls it has completed.
\<close>

fun backend_glow_fails :: "draw_call \<Rightarrow> nat \<Rightarrow> exc option \<times> nat" where
  "backend_glow_fails Glow_render n = (Some (Exception ''GLException''), n)"
| "backend_glow_fails _ n = (None, Suc n)"

fun backend_interrupted :: "draw_call \<Rightarrow> nat \<Rightarrow> exc option \<times> nat" where
  "backend_interrupted Glow_render n = (Some KeyboardInterrupt, n)"
| "backend_interrupted _ n = (None, Suc n)"

text \<open>
  A game in which the bullet list holds one particle (object 0) that sits on an enemy
  (object 1), and ten pairs of rolls.
\<close>

definition game_particle_on_enemy :: game where
  "game_particle_on_enemy =
     game0\<lparr>heap := (\<lambda>_. SpriteSolidColor_init SpriteSolidColor 0 0)
              (0 := (SpriteSolidColor_init Particle 4 4)
                      \<lparr>center_x := 110, center_y := 100, change_x := 1, alpha := 250\<rparr>,
               1 := (SpriteSolidColor_init SpriteSolidColor 20 20)
                      \<lparr>center_x := 110, center_y := 100\<rparr>),
           next_ref := 2, enemy_sprite_list := [1], bullet_sprite_list := [0]\<rparr>"

definition rolls_ten :: "int list" where
  "rolls_ten = [1, 1, 1, 1, 1, 1, 1, 1, 1, 1, 1, 1, 1, 1, 1, 1, 1, 1, 1, 1]"

text \<open>
  A game with one bullet (object 0) that overlaps one enemy (object 1), and rolls in
  the range of \<^verbatim>\<open>random.randrange(-2, 3)\<close> whose first pair is \<open>(0, 0)\<close>.
\<close>

definition game_hit :: game where
  "game_hit =
     game0\<lparr>heap := (\<lambda>_. SpriteSolidColor_init SpriteSolidColor 0 0)
              (0 := (SpriteSolidColor_init SpriteSolidColor 35 3)
                      \<lparr>center_x := 100, center_y := 100, change_x := 12\<rparr>,
               1 := (SpriteSolidColor_init SpriteSolidColor 20 20)
                      \<lparr>center_x := 110, center_y := 100\<rparr>),
           next_ref := 2, enemy_sprite_list := [1], bullet_sprite_list := [0]\<rparr>"

definition rolls_zero_first :: "int list" where
  "rolls_zero_first = [0, 0, 1, 0, 1, 1, 1, 1, 1, 1, 1, 1, 1, 1, 1, 1, 1, 1, 1, 1, 1, 1]"

section \<open>Player physics: the velocity bounds\<close>

lemma accelerate_up_bound:
  "\<bar>change_y p\<bar> \<le> MAX_VERTICAL_MOVEMENT_SPEED \<Longrightarrow>
   \<bar>change_y (accelerate_up p)\<bar> \<le> MAX_VERTICAL_MOVEMENT_SPEED \<and>
   change_x (accelerate_up p) = change_x p"
  by (auto simp add: accelerate_up_def Let_def constants)

lemma accelerate_down_bound:
  "\<bar>change_y p\<bar> \<le> MAX_VERTICAL_MOVEMENT_SPEED \<Longrightarrow>
   \<bar>change_y (accelerate_down p)\<bar> \<le> MAX_VERTICAL_MOVEMENT_SPEED \<and>
   change_x (accelerate_down p) = change_x p"
  by (auto simp add: accelerate_down_def Let_def constants)

lemma accelerate_right_bound:
  "\<bar>change_x p\<bar> \<le> MAX_HORIZONTAL_MOVEMENT_SPEED \<Longrightarrow>
   \<bar>change_x (accelerate_right p)\<bar> \<le> MAX_HORIZONTAL_MOVEMENT_SPEED \<and>
   change_y (accelerate_right p) = change_y p"
  by (auto simp add: accelerate_right_def Let_def constants)

lemma accelerate_left_bound:
  "\<bar>change_x p\<bar> \<le> MAX_HORIZONTAL_MOVEMENT_SPEED \<Longrightarrow>
   \<bar>change_x (accelerate_left p)\<bar> \<le> MAX_HORIZONTAL_MOVEMENT_SPEED \<and>
   change_y (accelerate_left p) = change_y p"
  by (auto simp add: accelerate_left_def Let_def constants)

lemma Player_move_velocity:
  "change_x (Player_move p) = change_x p \<and> change_y (Player_move p) = change_y p"
  by (simp add: Player_move_def Let_def)

lemma Player_drag_x_bound:
  "\<bar>change_x p\<bar> \<le> MAX_HORIZONTAL_MOVEMENT_SPEED \<Longrightarrow>
   \<bar>change_x (Player_drag_x p)\<bar> \<le> MAX_HORIZONTAL_MOVEMENT_SPEED"
  by (auto simp add: Player_drag_x_def Let_def constants)

lemma Player_drag_x_other: "change_y (Player_drag_x p) = change_y p"
  by (simp add: Player_drag_x_def Let_def)

lemma Player_drag_y_bound:
  "\<bar>change_y p\<bar> \<le> MAX_VERTICAL_MOVEMENT_SPEED \<Longrightarrow>
   \<bar>change_y (Player_drag_y p)\<bar> \<le> MAX_VERTICAL_MOVEMENT_SPEED"
  by (auto simp add: Player_drag_y_def Let_def constants)

lemma Player_drag_y_other: "change_x (Player_drag_y p) = change_x p"
  by (simp add: Player_drag_y_def Let_def)

lemma Player_check_bounds_velocity:
  "change_x (Player_check_bounds p) = change_x p \<and>
   change_y (Player_check_bounds p) = change_y p"
  by (simp add: Player_check_bounds_def Let_def edges)

lemma Player_update_bound:
  assumes "\<bar>change_x p\<bar> \<le> MAX_HORIZONTAL_MOVEMENT_SPEED"
    and "\<bar>change_y p\<bar> \<le> MAX_VERTICAL_MOVEMENT_SPEED"
  shows "\<bar>change_x (Player_update p)\<bar> \<le> MAX_HORIZONTAL_MOVEMENT_SPEED \<and>
         \<bar>change_y (Player_update p)\<bar> \<le> MAX_VERTICAL_MOVEMENT_SPEED"
proof -
  let ?m = "Player_move p"
  from assms have m: "\<bar>change_x ?m\<bar> \<le> MAX_HORIZONTAL_MOVEMENT_SPEED"
    "\<bar>change_y ?m\<bar> \<le> MAX_VERTICAL_MOVEMENT_SPEED"
    by (simp_all add: Player_move_velocity)
  have x: "\<bar>change_x (Player_drag ?m)\<bar> \<le> MAX_HORIZONTAL_MOVEMENT_SPEED"
    unfolding Player_drag_def by (simp add: Player_drag_y_other Player_drag_x_bound m)
  have y: "\<bar>change_y (Player_drag ?m)\<bar> \<le> MAX_VERTICAL_MOVEMENT_SPEED"
    unfolding Player_drag_def by (simp add: Player_drag_x_other Player_drag_y_bound m)
  show ?thesis
    unfolding Player_update_def by (simp add: Player_check_bounds_velocity x y)
qed

text \<open>
  Claim C7. For every latch state, the physics step of a frame (the accelerations chosen
  by the latch, then \<^verbatim>\<open>Player.update\<close>) keeps the player's velocity within
  \<open>\<bar>vx\<bar> \<le> MAX_HORIZONTAL_MOVEMENT_SPEED\<close> and \<open>\<bar>vy\<bar> \<le> MAX_VERTICAL_MOVEMENT_SPEED\<close>
  when the velocity was within these bounds before the step.
\<close>

theorem player_velocity_bounded:
  assumes "\<bar>change_x (player_sprite g)\<bar> \<le> MAX_HORIZONTAL_MOVEMENT_SPEED"
    and "\<bar>change_y (player_sprite g)\<bar> \<le> MAX_VERTICAL_MOVEMENT_SPEED"
  shows "\<bar>change_x (player_sprite (on_update_player g))\<bar> \<le> MAX_HORIZONTAL_MOVEMENT_SPEED \<and>
         \<bar>change_y (player_sprite (on_update_player g))\<bar> \<le> MAX_VERTICAL_MOVEMENT_SPEED"
proof -
  define g1 where "g1 =
     (if up_pressed g \<and> \<not> down_pressed g
      then g\<lparr>player_sprite := accelerate_up (player_sprite g)\<rparr>
      else if down_pressed g \<and> \<not> up_pressed g
      then g\<lparr>player_sprite := accelerate_down (player_sprite g)\<rparr> else g)"
  define g2 where "g2 =
     (if left_pressed g1 \<and> \<not> right_pressed g1
      then g1\<lparr>player_sprite := accelerate_left (player_sprite g1)\<rparr>
      else if right_pressed g1 \<and> \<not> left_pressed g1
      then g1\<lparr>player_sprite := accelerate_right (player_sprite g1)\<rparr> else g1)"
  have u: "on_update_player g = g2\<lparr>player_sprite := Player_update (player_sprite g2)\<rparr>"
    by (simp add: on_update_player_def g1_def g2_def Let_def)
  have b1: "\<bar>change_x (player_sprite g1)\<bar> \<le> MAX_HORIZONTAL_MOVEMENT_SPEED \<and>
        \<bar>change_y (player_sprite g1)\<bar> \<le> MAX_VERTICAL_MOVEMENT_SPEED"
    using assms accelerate_up_bound[of "player_sprite g"] accelerate_down_bound[of "player_sprite g"]
    by (simp add: g1_def)
  have b2: "\<bar>change_x (player_sprite g2)\<bar> \<le> MAX_HORIZONTAL_MOVEMENT_SPEED \<and>
        \<bar>change_y (player_sprite g2)\<bar> \<le> MAX_VERTICAL_MOVEMENT_SPEED"
    using b1 accelerate_left_bound[of "player_sprite g1"] accelerate_right_bound[of "player_sprite g1"]
    by (simp add: g2_def)
  from b2 Player_update_bound[of "player_sprite g2"] show ?thesis
    by (simp add: u)
qed

theorem player_velocity_bounded_witness:
  "\<bar>change_x (player_sprite game_full_speed)\<bar> \<le> MAX_HORIZONTAL_MOVEMENT_SPEED \<and>
   \<bar>change_y (player_sprite game_full_speed)\<bar> \<le> MAX_VERTICAL_MOVEMENT_SPEED \<and>
   \<bar>change_x (player_sprite (on_update_player game_full_speed))\<bar> \<le> MAX_HORIZONTAL_MOVEMENT_SPEED \<and>
   \<bar>change_y (player_sprite (on_update_player game_full_speed))\<bar> \<le> MAX_VERTICAL_MOVEMENT_SPEED"
proof -
  have x: "\<bar>change_x (player_sprite game_full_speed)\<bar> \<le> MAX_HORIZONTAL_MOVEMENT_SPEED"
    by (simp add: game_full_speed_def MAX_HORIZONTAL_MOVEMENT_SPEED_def)
  have y: "\<bar>change_y (player_sprite game_full_speed)\<bar> \<le> MAX_VERTICAL_MOVEMENT_SPEED"
    by (simp add: game_full_speed_def MAX_VERTICAL_MOVEMENT_SPEED_def)
  from player_velocity_bounded[OF x y] x y show ?thesis
    by simp
qed

section \<open>Player physics: the position bounds\<close>

lemma Player_move_size: "width (Player_move p) = width p \<and> height (Player_move p) = height p"
  by (simp add: Player_move_def Let_def)

lemma Player_drag_size: "width (Player_drag p) = width p \<and> height (Player_drag p) = height p"
  by (simp add: Player_drag_def Player_drag_x_def Player_drag_y_def Let_def)

lemma Player_check_bounds_x:
  assumes "width p = 40"
  shows "0 \<le> left (Player_check_bounds p) \<and>
         right (Player_check_bounds p) \<le> PLAYING_FIELD_WIDTH - 1"
  using assms by (simp add: Player_check_bounds_def Let_def edges constants)

lemma Player_check_bounds_y:
  assumes "height p = 10"
  shows "0 \<le> bottom (Player_check_bounds p) \<and>
         top_edge (Player_check_bounds p) \<le> SCREEN_HEIGHT - 1"
  using assms by (simp add: Player_check_bounds_def Let_def edges constants)

text \<open>
  Claim C8. After the bounds check that ends \<^verbatim>\<open>Player.update\<close>, the player (40 by 10)
  lies within the playing field: left edge at least 0, right edge at most
  \<open>PLAYING_FIELD_WIDTH\<close>, bottom at least 0, top at most \<open>PLAYING_FIELD_HEIGHT\<close>.
  This holds for every position and velocity before the step. (The check itself keeps
  the right edge at or below \<open>PLAYING_FIELD_WIDTH - 1\<close> and the top at or below
  \<open>SCREEN_HEIGHT - 1\<close>, which is less than the height of the field.)
\<close>

theorem player_stays_in_field:
  assumes "width p = 40" and "height p = 10"
  shows "0 \<le> left (Player_update p) \<and> right (Player_update p) \<le> PLAYING_FIELD_WIDTH \<and>
         0 \<le> bottom (Player_update p) \<and> top_edge (Player_update p) \<le> PLAYING_FIELD_HEIGHT"
proof -
  let ?q = "Player_drag (Player_move p)"
  have w: "width ?q = 40" and h: "height ?q = 10"
    using assms by (simp_all add: Player_drag_size Player_move_size)
  from Player_check_bounds_x[OF w] Player_check_bounds_y[OF h] show ?thesis
    unfolding Player_update_def by (simp add: constants)
qed

lemma player_outside_update:
  "Player_update player_outside = Player_init\<lparr>center_x := 20, center_y := 714, change_x := - 9.92, change_y := 4.92\<rparr>"
  by (simp add: player_outside_def Player_init_def Player_update_def Player_move_def
      Player_drag_def Player_drag_x_def Player_drag_y_def Player_check_bounds_def Let_def edges constants)

theorem player_stays_in_field_witness:
  "width player_outside = 40 \<and> height player_outside = 10 \<and>
   left player_outside < 0 \<and> top_edge player_outside > PLAYING_FIELD_HEIGHT \<and>
   0 \<le> left (Player_update player_outside) \<and>
   right (Player_update player_outside) \<le> PLAYING_FIELD_WIDTH \<and>
   0 \<le> bottom (Player_update player_outside) \<and>
   top_edge (Player_update player_outside) \<le> PLAYING_FIELD_HEIGHT"
proof -
  have w: "width player_outside = 40" and h: "height player_outside = 10"
    by (simp_all add: player_outside_def Player_init_def)
  have o: "left player_outside < 0 \<and> top_edge player_outside > PLAYING_FIELD_HEIGHT"
    by (simp add: player_outside_def Player_init_def edges constants)
  from player_stays_in_field[OF w h] w h o show ?thesis
    by simp
qed

section \<open>Fired bullets are plain sprites\<close>

lemma Bullet_update_removes:
  "snd (Bullet_update b) \<longleftrightarrow> BULLET_MAX_DISTANCE < distance (fst (Bullet_update b))"
  by (simp add: Bullet_update_def Let_def)

lemma Sprite_update_keeps: "snd (Sprite_update s) = False"
  by (simp add: Sprite_update_def Let_def)

lemma Sprite_ticks_returns: "\<exists>s'. Sprite_ticks n s = Some s'"
proof (induction n)
  case 0
  then show ?case by simp
next
  case (Suc n)
  then obtain s1 where "Sprite_ticks n s = Some s1"
    by blast
  with Sprite_update_keeps[of s1] show ?case
    by (cases "Sprite_update s1") auto
qed

lemma Sprite_update_at:
  "Sprite_update \<lparr>cls = c, center_x = x, center_y = y, change_x = 12, change_y = 0,
      width = w, height = h, alpha = a\<rparr> =
   (\<lparr>cls = c, center_x = x + 12, center_y = y, change_x = 12, change_y = 0,
      width = w, height = h, alpha = a\<rparr>, False)"
  by (simp add: Sprite_update_def Let_def)

lemma Sprite_ticks_81:
  "Sprite_ticks 81 \<lparr>cls = c, center_x = 50, center_y = y, change_x = 12, change_y = 0,
      width = w, height = h, alpha = a\<rparr> =
   Some \<lparr>cls = c, center_x = 1022, center_y = y, change_x = 12, change_y = 0,
      width = w, height = h, alpha = a\<rparr>"
  by (simp add: eval_nat_numeral Sprite_update_at)

lemma fired_at_rest:
  "bullet_sprite_list (on_key_press SPACE game0) = [0] \<and>
   heap (on_key_press SPACE game0) 0 =
     \<lparr>cls = SpriteSolidColor, center_x = 50, center_y = 50, change_x = 12, change_y = 0,
      width = 35, height = 3, alpha = 255\<rparr>"
  by (simp add: on_key_press_def fired_change_x_def game0_def Player_init_def
      SpriteSolidColor_init_def Let_def)

text \<open>
  Claim C4, at an input where the code departs from it. The claim has every bullet
  removed by its update once its accumulated travel is past \<open>BULLET_MAX_DISTANCE\<close>,
  960. In the game after \<^verbatim>\<open>setup\<close> the fire key appends one object to the bullet list,
  with horizontal velocity 12. That object is a plain \<^verbatim>\<open>SpriteSolidColor\<close>, not a
  \<^verbatim>\<open>Bullet\<close>: it has no accumulated distance, and the update it runs is the inherited
  one, which removes nothing. So the object is still in its list after every number of
  ticks; after 81 ticks it has travelled 972, more than the threshold.
\<close>

theorem fired_bullet_is_never_removed:
  "bullet_sprite_list (on_key_press SPACE game0) = [0] \<and>
   cls (heap (on_key_press SPACE game0) 0) = SpriteSolidColor \<and>
   change_x (heap (on_key_press SPACE game0) 0) = 12 \<and>
   Sprite_ticks n (heap (on_key_press SPACE game0) 0) \<noteq> None \<and>
   (\<exists>s. Sprite_ticks 81 (heap (on_key_press SPACE game0) 0) = Some s \<and>
      center_x s - center_x (heap (on_key_press SPACE game0) 0) = 972 \<and>
      BULLET_MAX_DISTANCE < center_x s - center_x (heap (on_key_press SPACE game0) 0))"
proof -
  from Sprite_ticks_returns[of n "heap (on_key_press SPACE game0) 0"]
  have 1: "Sprite_ticks n (heap (on_key_press SPACE game0) 0) \<noteq> None"
    by auto
  have 2: "\<exists>s. Sprite_ticks 81 (heap (on_key_press SPACE game0) 0) = Some s \<and>
      center_x s - center_x (heap (on_key_press SPACE game0) 0) = 972 \<and>
      BULLET_MAX_DISTANCE < center_x s - center_x (heap (on_key_press SPACE game0) 0)"
    by (simp add: fired_at_rest Sprite_ticks_81 constants)
  from 1 2 show ?thesis
    by (simp add: fired_at_rest)
qed



section \<open>The life of a particle\<close>

lemma Particle_update_fields:
  "alpha (fst (Particle_update s)) = alpha s - 5 \<and>
   snd (Particle_update s) = (alpha s - 5 \<le> 0)"
  by (simp add: Particle_update_def Let_def)

lemma Particle_ticks_Some:
  "Particle_ticks n s = Some s' \<Longrightarrow> alpha s' = alpha s - 5 * int n"
proof (induction n arbitrary: s')
  case 0
  then show ?case by simp
next
  case (Suc n)
  from Suc.prems obtain s1 where
    s1: "Particle_ticks n s = Some s1" and
    s': "s' = fst (Particle_update s1)"
    by (auto split: option.splits prod.splits if_splits)
  from Suc.IH[OF s1] s' show ?case
    by (simp add: Particle_update_fields)
qed

lemma Particle_ticks_None:
  "Particle_ticks n s = None \<longleftrightarrow> (\<exists>k. 1 \<le> k \<and> k \<le> n \<and> alpha s - 5 * int k \<le> 0)"
proof (induction n)
  case 0
  then show ?case by simp
next
  case (Suc n)
  show ?case
  proof (cases "Particle_ticks n s")
    case None
    with Suc obtain k where "1 \<le> k" "k \<le> n" "alpha s - 5 * int k \<le> 0"
      by auto
    then have "\<exists>k. 1 \<le> k \<and> k \<le> Suc n \<and> alpha s - 5 * int k \<le> 0"
      by (intro exI[of _ k]) simp
    with None show ?thesis by simp
  next
    case (Some s1)
    with Suc have no: "\<And>k. 1 \<le> k \<Longrightarrow> k \<le> n \<Longrightarrow> \<not> alpha s - 5 * int k \<le> 0"
      by auto
    from Particle_ticks_Some[OF Some]
    have d: "alpha s1 - 5 = alpha s - 5 * int (Suc n)"
      by simp
    have "Particle_ticks (Suc n) s = None \<longleftrightarrow> alpha s - 5 * int (Suc n) \<le> 0"
      using Some d Particle_update_fields[of s1]
      by (auto split: prod.splits)
    also have "\<dots> \<longleftrightarrow> (\<exists>k. 1 \<le> k \<and> k \<le> Suc n \<and> alpha s - 5 * int k \<le> 0)"
    proof
      assume "alpha s - 5 * int (Suc n) \<le> 0"
      then show "\<exists>k. 1 \<le> k \<and> k \<le> Suc n \<and> alpha s - 5 * int k \<le> 0"
        by (intro exI[of _ "Suc n"]) simp
    next
      assume "\<exists>k. 1 \<le> k \<and> k \<le> Suc n \<and> alpha s - 5 * int k \<le> 0"
      then obtain k where k: "1 \<le> k" "k \<le> Suc n" "alpha s - 5 * int k \<le> 0"
        by blast
      with no[of k] have "k = Suc n"
        by (cases "k \<le> n") auto
      with k show "alpha s - 5 * int (Suc n) \<le> 0"
        by simp
    qed
    finally show ?thesis .
  qed
qed

text \<open>
  Claim C9. Every update of a particle lowers its alpha by exactly 5, so strictly, and
  removes the particle if and only if the alpha it has just reached is at most 0.
  Hence a particle is gone after \<open>n\<close> ticks if and only if one of the first \<open>n\<close>
  updates brought its alpha to 0 or below, and a particle still in its list after
  \<open>n\<close> ticks has alpha \<open>alpha s - 5 * n\<close>, which is positive unless \<open>n = 0\<close>: it is
  removed on the first tick at which the alpha is at most 0.
\<close>

theorem particle_fades_and_is_removed:
  "alpha (fst (Particle_update s)) = alpha s - 5 \<and>
   alpha (fst (Particle_update s)) < alpha s \<and>
   (snd (Particle_update s) \<longleftrightarrow> alpha (fst (Particle_update s)) \<le> 0) \<and>
   (Particle_ticks n s = None \<longleftrightarrow> (\<exists>k. 1 \<le> k \<and> k \<le> n \<and> alpha s - 5 * int k \<le> 0)) \<and>
   (\<forall>s'. Particle_ticks n s = Some s' \<longrightarrow>
      alpha s' = alpha s - 5 * int n \<and> (0 < n \<longrightarrow> 0 < alpha s'))"
proof (intro conjI allI impI)
  show "alpha (fst (Particle_update s)) = alpha s - 5"
    by (simp add: Particle_update_fields)
  show "alpha (fst (Particle_update s)) < alpha s"
    by (simp add: Particle_update_fields)
  show "snd (Particle_update s) \<longleftrightarrow> alpha (fst (Particle_update s)) \<le> 0"
    by (simp add: Particle_update_fields)
  show "Particle_ticks n s = None \<longleftrightarrow> (\<exists>k. 1 \<le> k \<and> k \<le> n \<and> alpha s - 5 * int k \<le> 0)"
    by (rule Particle_ticks_None)
next
  fix s'
  assume s: "Particle_ticks n s = Some s'"
  from Particle_ticks_Some[OF s] show a: "alpha s' = alpha s - 5 * int n" .
  assume n: "0 < n"
  from s have "Particle_ticks n s \<noteq> None" by simp
  then have "\<not> (\<exists>k. 1 \<le> k \<and> k \<le> n \<and> alpha s - 5 * int k \<le> 0)"
    by (simp add: Particle_ticks_None)
  with n have "\<not> alpha s - 5 * int n \<le> 0"
    by (auto simp: Suc_le_eq)
  with a show "0 < alpha s'" by simp
qed

theorem particle_fades_and_is_removed_witness:
  "alpha particle_new = 255 \<and>
   (\<exists>s'. Particle_ticks 50 particle_new = Some s' \<and> alpha s' = 5 \<and> snd (Particle_update s')) \<and>
   Particle_ticks 51 particle_new = None"
proof -
  have a: "alpha particle_new = 255"
    by (simp add: particle_new_def SpriteSolidColor_init_def)
  have "\<not> (\<exists>k. 1 \<le> k \<and> k \<le> (50::nat) \<and> alpha particle_new - 5 * int k \<le> 0)"
    by (auto simp: a)
  with particle_fades_and_is_removed[of particle_new 50]
  obtain s' where s': "Particle_ticks 50 particle_new = Some s'"
    by auto
  with particle_fades_and_is_removed[of particle_new 50] have 1: "alpha s' = 5"
    by (simp add: a)
  with particle_fades_and_is_removed[of s' 0] have 2: "snd (Particle_update s')"
    by simp
  have "\<exists>k. 1 \<le> k \<and> k \<le> (51::nat) \<and> alpha particle_new - 5 * int k \<le> 0"
    by (intro exI[of _ 51]) (simp add: a)
  with particle_fades_and_is_removed[of particle_new 51]
  have 3: "Particle_ticks 51 particle_new = None"
    by simp
  from a s' 1 2 3 show ?thesis by simp
qed

section \<open>Firing\<close>

text \<open>
  Claim C6. Pressing the fire key while the player moves with horizontal velocity \<open>v\<close>
  appends exactly one new sprite to the bullet list and changes no other object. The
  new sprite is at the player's position and has horizontal velocity
  \<open>max 12 (\<bar>v\<bar> + 10)\<close>, negated when the player does not face right; for a player
  that moves right at speed 8 and faces right this is 18.
\<close>

theorem firing_creates_one_bullet:
  "bullet_sprite_list (on_key_press SPACE g) = bullet_sprite_list g @ [next_ref g] \<and>
   (\<forall>r. r \<noteq> next_ref g \<longrightarrow> heap (on_key_press SPACE g) r = heap g r) \<and>
   center_x (heap (on_key_press SPACE g) (next_ref g)) = center_x (player_sprite g) \<and>
   center_y (heap (on_key_press SPACE g) (next_ref g)) = center_y (player_sprite g) \<and>
   change_x (heap (on_key_press SPACE g) (next_ref g)) =
     (if face_right (player_sprite g)
      then max 12 (\<bar>change_x (player_sprite g)\<bar> + 10)
      else - max 12 (\<bar>change_x (player_sprite g)\<bar> + 10)) \<and>
   change_y (heap (on_key_press SPACE g) (next_ref g)) = 0 \<and>
   (change_x (player_sprite g) = 8 \<and> face_right (player_sprite g) \<longrightarrow>
      change_x (heap (on_key_press SPACE g) (next_ref g)) = 18)"
  by (simp add: on_key_press_def fired_change_x_def SpriteSolidColor_init_def Let_def)

theorem firing_creates_one_bullet_witness:
  "change_x (player_sprite game_speed_8) = 8 \<and> face_right (player_sprite game_speed_8) \<and>
   bullet_sprite_list (on_key_press SPACE game_speed_8) = [0] \<and>
   center_x (heap (on_key_press SPACE game_speed_8) 0) = 50 \<and>
   center_y (heap (on_key_press SPACE game_speed_8) 0) = 50 \<and>
   change_x (heap (on_key_press SPACE game_speed_8) 0) = 18"
proof -
  have v: "change_x (player_sprite game_speed_8) = 8 \<and> face_right (player_sprite game_speed_8)"
    by (simp add: game_speed_8_def game0_def Player_init_def)
  have s: "next_ref game_speed_8 = 0 \<and> bullet_sprite_list game_speed_8 = [] \<and>
      center_x (player_sprite game_speed_8) = 50 \<and> center_y (player_sprite game_speed_8) = 50"
    by (simp add: game_speed_8_def game0_def Player_init_def)
  from firing_creates_one_bullet[of game_speed_8] v s show ?thesis
    by simp
qed

section \<open>The camera keeps the player between the margins\<close>

lemma scroll_x_margins:
  assumes "width p = 40"
  shows "scroll_x vl p + VIEWPORT_MARGIN \<le> left p \<and>
         right p \<le> scroll_x vl p + SCREEN_WIDTH - VIEWPORT_MARGIN"
  using assms by (simp add: scroll_x_def Let_def edges constants)

lemma py_int_near: "real_of_int (py_int x) - 1 < x \<and> x < real_of_int (py_int x) + 1"
  unfolding py_int_def by (simp; linarith)

text \<open>
  Claim C3, as amended. The claim as stated fails: the truncation \<^verbatim>\<open>int(self.view_left)\<close>
  rounds towards zero, which moves a negative offset to the right and a positive one to
  the left, so after it an edge of the player can lie beyond its margin. What holds
  after the camera correction, truncation included, for every position of the player:
  each margin is kept to within less than one pixel. The left edge is above
  \<open>view_left + VIEWPORT_MARGIN - 1\<close> and the right edge is below
  \<open>view_left + SCREEN_WIDTH - VIEWPORT_MARGIN + 1\<close>.
\<close>

theorem camera_margins_up_to_truncation:
  assumes "width (player_sprite g) = 40"
  shows "real_of_int (view_left (on_update_scroll g)) + VIEWPORT_MARGIN - 1
           < left (player_sprite (on_update_scroll g)) \<and>
         right (player_sprite (on_update_scroll g))
           < real_of_int (view_left (on_update_scroll g)) + SCREEN_WIDTH - VIEWPORT_MARGIN + 1"
proof -
  let ?p = "player_sprite g"
  let ?v = "scroll_x (real_of_int (view_left g)) ?p"
  have vl: "view_left (on_update_scroll g) = py_int ?v"
    and p: "player_sprite (on_update_scroll g) = ?p"
    by (simp_all add: on_update_scroll_def)
  note m = scroll_x_margins[OF assms, of "real_of_int (view_left g)"]
  note n = py_int_near[of ?v]
  have 1: "real_of_int (py_int ?v) + VIEWPORT_MARGIN - 1 < left ?p"
    using m n by linarith
  have 2: "right ?p < real_of_int (py_int ?v) + SCREEN_WIDTH - VIEWPORT_MARGIN + 1"
    using m n by linarith
  from 1 2 show ?thesis
    unfolding vl p by simp
qed

lemma left_held_0: "player_sprite (game0\<lparr>left_pressed := True\<rparr>) = player_at 50 50 0 0 True"
  by (simp add: game0_def Player_init_def player_at_def)

lemma left_held_1: "accelerate_left (player_at 50 50 0 0 True) = player_at 50 50 (- 0.5) 0 False"
  by (simp add: accelerate_left_def player_at_def Let_def constants)

lemma left_held_2: "Player_move (player_at 50 50 (- 0.5) 0 False) = player_at 49.5 50 (- 0.5) 0 False"
  by (simp add: Player_move_def player_at_def Let_def)

lemma left_held_3: "Player_drag_x (player_at 49.5 50 (- 0.5) 0 False) = player_at 49.5 50 (- 0.42) 0 False"
  by (simp add: Player_drag_x_def player_at_def Let_def constants)

lemma left_held_4: "Player_drag_y (player_at 49.5 50 (- 0.42) 0 False) = player_at 49.5 50 (- 0.42) 0 False"
  by (simp add: Player_drag_y_def player_at_def Let_def constants)

lemma left_held_5: "Player_check_bounds (player_at 49.5 50 (- 0.42) 0 False) = player_at 49.5 50 (- 0.42) 0 False"
  by (simp add: Player_check_bounds_def player_at_def Let_def edges constants)

lemma left_held_6: "Player_update (player_at 50 50 (- 0.5) 0 False) = player_at 49.5 50 (- 0.42) 0 False"
  by (simp only: Player_update_def Player_drag_def left_held_2 left_held_3 left_held_4 left_held_5)

lemma game_left_held_player: "player_sprite game_left_held = player_at 49.5 50 (- 0.42) 0 False"
proof -
  have "player_sprite game_left_held =
      Player_update (accelerate_left (player_sprite (game0\<lparr>left_pressed := True\<rparr>)))"
    by (simp add: game_left_held_def on_update_player_def Let_def game0_def)
  also have "\<dots> = player_at 49.5 50 (- 0.42) 0 False"
    by (simp only: left_held_0 left_held_1 left_held_6)
  finally show ?thesis .
qed

lemma game_left_held_view: "view_left game_left_held = 0"
  by (simp add: game_left_held_def game0_def on_update_player_def Let_def)

lemma game_left_held_scroll_x:
  "scroll_x (real_of_int (view_left game_left_held)) (player_sprite game_left_held) = - 560.5"
  by (simp add: game_left_held_player game_left_held_view
      scroll_x_def player_at_def Let_def edges constants)

lemma game_left_held_scroll: "view_left (on_update_scroll game_left_held) = - 560"
  by (simp add: on_update_scroll_def game_left_held_scroll_x py_int_def)

theorem camera_margin_counterexample:
  "0 \<le> left (player_sprite game_left_held) \<and>
   right (player_sprite game_left_held) \<le> PLAYING_FIELD_WIDTH \<and>
   0 \<le> bottom (player_sprite game_left_held) \<and>
   top_edge (player_sprite game_left_held) \<le> PLAYING_FIELD_HEIGHT \<and>
   left (player_sprite (on_update_scroll game_left_held)) = 29.5 \<and>
   real_of_int (view_left (on_update_scroll game_left_held)) + VIEWPORT_MARGIN = 30 \<and>
   \<not> (real_of_int (view_left (on_update_scroll game_left_held)) + VIEWPORT_MARGIN
        \<le> left (player_sprite (on_update_scroll game_left_held)))"
proof -
  have p: "player_sprite (on_update_scroll game_left_held) = player_sprite game_left_held"
    by (simp add: on_update_scroll_def)
  show ?thesis
    unfolding p game_left_held_scroll game_left_held_player
    by (simp add: player_at_def edges constants)
qed

theorem camera_margins_up_to_truncation_witness:
  "width (player_sprite game_left_held) = 40 \<and>
   view_left (on_update_scroll game_left_held) = - 560 \<and>
   real_of_int (view_left (on_update_scroll game_left_held)) + VIEWPORT_MARGIN - 1
     < left (player_sprite (on_update_scroll game_left_held)) \<and>
   right (player_sprite (on_update_scroll game_left_held))
     < real_of_int (view_left (on_update_scroll game_left_held)) + SCREEN_WIDTH - VIEWPORT_MARGIN + 1"
proof -
  have w: "width (player_sprite game_left_held) = 40"
    by (simp add: game_left_held_player player_at_def)
  from camera_margins_up_to_truncation[OF w] w game_left_held_scroll
  show ?thesis
    by simp
qed

section \<open>The error boundary of the render step\<close>

lemma try_calls_append:
  "try_calls backend (cs1 @ cs2) w =
     (case try_calls backend cs1 w of
        (Some e, w1) \<Rightarrow> (Some e, w1)
      | (None, w1) \<Rightarrow> try_calls backend cs2 w1)"
  by (induction cs1 arbitrary: w) (auto split: prod.splits option.splits)

lemma try_calls_raises_at:
  assumes "k < length cs"
    and "try_calls backend (take k cs) w = (None, w1)"
    and "backend (cs ! k) w1 = (Some e, w2)"
  shows "try_calls backend cs w = (Some e, w2)"
proof -
  from assms(1) have "cs = take k cs @ (cs ! k) # drop (Suc k) cs"
    by (simp add: id_take_nth_drop)
  then have "try_calls backend cs w = try_calls backend (take k cs @ (cs ! k) # drop (Suc k) cs) w"
    by simp
  also have "\<dots> = (Some e, w2)"
    using assms(2,3) by (simp add: try_calls_append)
  finally show ?thesis .
qed

text \<open>
  Claim C10, as amended. The claim as stated fails: the handler is \<^verbatim>\<open>except Exception\<close>,
  and an exception outside the \<^verbatim>\<open>Exception\<close> hierarchy (\<^verbatim>\<open>KeyboardInterrupt\<close>,
  \<^verbatim>\<open>SystemExit\<close>, \<^verbatim>\<open>GeneratorExit\<close>) escapes \<^verbatim>\<open>on_draw\<close>. What holds: whichever call
  of the render sequence raises first, and whatever the backend is, the calls after it
  are not made; if the exception is an instance of \<^verbatim>\<open>Exception\<close>, the one handler
  around the whole sequence prints its stack trace and \<^verbatim>\<open>on_draw\<close> returns normally;
  otherwise the exception propagates and nothing is printed. \<^verbatim>\<open>on_draw\<close> assigns to no
  attribute of the game, so the game state is the same afterwards in either case.
\<close>

theorem on_draw_catches_Exception:
  assumes "k < length (on_draw_calls g)"
    and "try_calls backend (take k (on_draw_calls g)) w = (None, w1)"
    and "backend (on_draw_calls g ! k) w1 = (Some e, w2)"
  shows "on_draw backend g w =
           (if isinstance_Exception e then (Returned, w2, [e]) else (Raised e, w2, []))"
  using try_calls_raises_at[OF assms] by (simp add: on_draw_def)

lemma on_draw_calls_game0_take:
  "length (on_draw_calls game0) = 24 \<and> on_draw_calls game0 ! 15 = Glow_render \<and>
   take 15 (on_draw_calls game0) =
     [Start_render, Use Minimap_screen, Clear Minimap_screen,
      Set_viewport 0 PLAYING_FIELD_WIDTH 0 SCREEN_HEIGHT,
      Draw [], Draw [sprite.truncate (player_sprite game0)],
      Use Play_screen, Clear Play_screen,
      Set_viewport 0 SCREEN_WIDTH 0 SCREEN_HEIGHT,
      Draw [], Draw [], Draw_line 0 0 PLAYING_FIELD_WIDTH 0 WHITE,
      Use Window, Set_viewport 0 SCREEN_WIDTH 0 SCREEN_HEIGHT, GlDisable_BLEND]"
  by (simp add: on_draw_calls_def Let_def game0_def)

theorem on_draw_counterexample:
  "on_draw backend_interrupted game0 0 = (Raised KeyboardInterrupt, 15, [])"
proof -
  have t: "try_calls backend_interrupted (take 15 (on_draw_calls game0)) 0 = (None, 15)"
    by (simp add: on_draw_calls_game0_take)
  have r: "try_calls backend_interrupted (on_draw_calls game0) 0 = (Some KeyboardInterrupt, 15)"
    by (rule try_calls_raises_at[where k = 15 and ?w1.0 = 15, OF _ t])
      (simp_all add: on_draw_calls_game0_take)
  show ?thesis
    by (simp add: on_draw_def r)
qed

theorem on_draw_catches_Exception_witness:
  "15 < length (on_draw_calls game0) \<and>
   try_calls backend_glow_fails (take 15 (on_draw_calls game0)) 0 = (None, 15) \<and>
   backend_glow_fails (on_draw_calls game0 ! 15) 15 = (Some (Exception ''GLException''), 15) \<and>
   on_draw backend_glow_fails game0 0 = (Returned, 15, [Exception ''GLException''])"
proof -
  have k: "15 < length (on_draw_calls game0)"
    by (simp add: on_draw_calls_game0_take)
  have t: "try_calls backend_glow_fails (take 15 (on_draw_calls game0)) 0 = (None, 15)"
    by (simp add: on_draw_calls_game0_take)
  have b: "backend_glow_fails (on_draw_calls game0 ! 15) 15 = (Some (Exception ''GLException''), 15)"
    by (simp add: on_draw_calls_game0_take)
  from on_draw_catches_Exception[OF k t b] k t b show ?thesis
    by simp
qed

section \<open>The collision loop: the particles of a burst\<close>

lemma reroll_effect:
  "reroll p e g rs = Some (g', rs') \<Longrightarrow>
   (\<exists>k. bullet_sprite_list g' = bullet_sprite_list g @ replicate k p) \<and>
   (\<forall>r. r \<noteq> p \<longrightarrow> heap g' r = heap g r) \<and>
   cls (heap g' p) = cls (heap g p) \<and>
   \<not> (change_y (heap g' p) = 0 \<and> change_x (heap g' p) = 0)"
proof (induction p e g rs rule: reroll.induct)
  case (1 p e g rs)
  show ?case
  proof (cases "change_y (heap g p) = 0 \<and> change_x (heap g p) = 0")
    case False
    with "1.prems" have "g' = g" by (simp add: reroll.simps)
    with False show ?thesis by simp
  next
    case True
    with "1.prems" obtain dy dx rs0 where rs: "rs = dy # dx # rs0"
      by (cases rs; cases "tl rs") (auto simp: reroll.simps)
    let ?g1 = "g\<lparr>heap := (heap g)(p := (heap g p)
                    \<lparr>change_y := of_int dy, change_x := of_int dx,
                     center_x := center_x (heap g e),
                     center_y := center_y (heap g e)\<rparr>),
                  bullet_sprite_list := bullet_sprite_list g @ [p]\<rparr>"
    from "1.prems" True rs have r: "reroll p e ?g1 rs0 = Some (g', rs')"
      by (simp add: reroll.simps)
    from "1.IH"[OF True rs refl r]
    obtain k where k: "bullet_sprite_list g' = bullet_sprite_list ?g1 @ replicate k p"
      and h: "\<forall>r. r \<noteq> p \<longrightarrow> heap g' r = heap ?g1 r"
      and c: "cls (heap g' p) = cls (heap ?g1 p)"
      and v: "\<not> (change_y (heap g' p) = 0 \<and> change_x (heap g' p) = 0)"
      by blast
    from k have "bullet_sprite_list g' = bullet_sprite_list g @ replicate (Suc k) p"
      by (simp add: replicate_app_Cons_same)
    then have "\<exists>k. bullet_sprite_list g' = bullet_sprite_list g @ replicate k p"
      by blast
    with h c v show ?thesis by simp
  qed
qed

lemma reroll_centre:
  "reroll p e g rs = Some (g', rs') \<Longrightarrow> e \<noteq> p \<Longrightarrow>
   center_x (heap g e) = x \<Longrightarrow> center_y (heap g e) = y \<Longrightarrow>
   (change_y (heap g p) = 0 \<and> change_x (heap g p) = 0) \<or>
   (center_x (heap g p) = x \<and> center_y (heap g p) = y) \<Longrightarrow>
   center_x (heap g' p) = x \<and> center_y (heap g' p) = y"
proof (induction p e g rs rule: reroll.induct)
  case (1 p e g rs)
  show ?case
  proof (cases "change_y (heap g p) = 0 \<and> change_x (heap g p) = 0")
    case False
    with "1.prems"(1) have "g' = g" by (simp add: reroll.simps)
    with False "1.prems"(5) show ?thesis by blast
  next
    case True
    with "1.prems"(1) obtain dy dx rs0 where rs: "rs = dy # dx # rs0"
      by (cases rs; cases "tl rs") (auto simp: reroll.simps)
    let ?g1 = "g\<lparr>heap := (heap g)(p := (heap g p)
                  \<lparr>change_y := of_int dy, change_x := of_int dx,
                   center_x := center_x (heap g e),
                   center_y := center_y (heap g e)\<rparr>),
                bullet_sprite_list := bullet_sprite_list g @ [p]\<rparr>"
    from "1.prems"(1) True rs have r: "reroll p e ?g1 rs0 = Some (g', rs')"
      by (simp add: reroll.simps)
    have ex: "center_x (heap ?g1 e) = x" and ey: "center_y (heap ?g1 e) = y"
      using "1.prems"(2,3,4) by simp_all
    have pc: "(change_y (heap ?g1 p) = 0 \<and> change_x (heap ?g1 p) = 0) \<or>
          (center_x (heap ?g1 p) = x \<and> center_y (heap ?g1 p) = y)"
      using "1.prems"(3,4) by simp
    from "1.IH"[OF True rs refl r "1.prems"(2) ex ey pc] show ?thesis .
  qed
qed

lemma reroll_appends:
  assumes "reroll p e g rs = Some (g', rs')"
    and "change_y (heap g p) = 0 \<and> change_x (heap g p) = 0"
  shows "p \<in> set (bullet_sprite_list g')"
proof -
  from assms obtain dy dx rs0 where rs: "rs = dy # dx # rs0"
    by (cases rs; cases "tl rs") (auto simp: reroll.simps)
  let ?g1 = "g\<lparr>heap := (heap g)(p := (heap g p)
                  \<lparr>change_y := of_int dy, change_x := of_int dx,
                   center_x := center_x (heap g e),
                   center_y := center_y (heap g e)\<rparr>),
                bullet_sprite_list := bullet_sprite_list g @ [p]\<rparr>"
  from assms rs have r: "reroll p e ?g1 rs0 = Some (g', rs')"
    by (simp add: reroll.simps)
  from reroll_effect[OF r] obtain k where
    "bullet_sprite_list g' = bullet_sprite_list ?g1 @ replicate k p"
    by blast
  then show ?thesis by simp
qed

lemma spawn_particles_effect:
  "spawn_particles n e g rs = Some (g', rs') \<Longrightarrow> e < next_ref g \<Longrightarrow>
   next_ref g' = next_ref g + n \<and>
   (\<exists>ys. bullet_sprite_list g' = bullet_sprite_list g @ ys \<and>
         set ys \<subseteq> {next_ref g..<next_ref g + n}) \<and>
   (\<forall>r. r < next_ref g \<longrightarrow> heap g' r = heap g r) \<and>
   (\<forall>i. i < n \<longrightarrow>
      burst_particle g' (next_ref g + i) (center_x (heap g e)) (center_y (heap g e)))"
proof (induction n arbitrary: g rs)
  case 0
  then show ?case by simp
next
  case (Suc n)
  let ?p = "next_ref g"
  let ?g1 = "g\<lparr>heap := (heap g)(?p := SpriteSolidColor_init Particle 4 4),
               next_ref := Suc ?p\<rparr>"
  from Suc.prems(1) obtain g2 rs2 where
    r: "reroll ?p e ?g1 rs = Some (g2, rs2)" and
    s: "spawn_particles n e g2 rs2 = Some (g', rs')"
    by (auto simp: Particle_new_def split: option.splits)
  from Suc.prems(2) have ep: "e \<noteq> ?p" by simp
  have zero: "change_y (heap ?g1 ?p) = 0 \<and> change_x (heap ?g1 ?p) = 0"
    by (simp add: SpriteSolidColor_init_def)
  from reroll_lists[OF r] have n2: "next_ref g2 = Suc ?p"
    by simp
  from reroll_effect[OF r] obtain k where
    b2: "bullet_sprite_list g2 = bullet_sprite_list g @ replicate k ?p" and
    h2: "\<forall>r. r \<noteq> ?p \<longrightarrow> heap g2 r = heap ?g1 r" and
    c2: "cls (heap g2 ?p) = Particle" and
    v2: "\<not> (change_y (heap g2 ?p) = 0 \<and> change_x (heap g2 ?p) = 0)"
    by (auto simp: SpriteSolidColor_init_def)
  have e1: "heap ?g1 e = heap g e"
    using ep by simp
  from h2 ep e1 have e2: "heap g2 e = heap g e"
    by simp
  from reroll_centre[OF r ep refl refl] zero e1
  have x2: "center_x (heap g2 ?p) = center_x (heap g e) \<and>
            center_y (heap g2 ?p) = center_y (heap g e)"
    by simp
  from reroll_appends[OF r zero] have m2: "?p \<in> set (bullet_sprite_list g2)" .
  from Suc.prems(2) n2 have e_lt: "e < next_ref g2" by simp
  from Suc.IH[OF s e_lt] obtain ys where
    n': "next_ref g' = next_ref g2 + n" and
    b': "bullet_sprite_list g' = bullet_sprite_list g2 @ ys" and
    ys: "set ys \<subseteq> {next_ref g2..<next_ref g2 + n}" and
    h': "\<forall>r. r < next_ref g2 \<longrightarrow> heap g' r = heap g2 r" and
    p': "\<forall>i. i < n \<longrightarrow>
      burst_particle g' (next_ref g2 + i) (center_x (heap g2 e)) (center_y (heap g2 e))"
    by blast
  have 1: "next_ref g' = ?p + Suc n"
    using n' n2 by simp
  have "bullet_sprite_list g' = bullet_sprite_list g @ (replicate k ?p @ ys)"
    using b' b2 by simp
  moreover have "set (replicate k ?p @ ys) \<subseteq> {?p..<?p + Suc n}"
    using ys n2 by auto
  ultimately have 2: "\<exists>ys. bullet_sprite_list g' = bullet_sprite_list g @ ys \<and>
         set ys \<subseteq> {?p..<?p + Suc n}"
    by blast
  have 3: "\<forall>r. r < ?p \<longrightarrow> heap g' r = heap g r"
  proof (intro allI impI)
    fix r assume r: "r < ?p"
    with h' n2 have "heap g' r = heap g2 r" by simp
    also from h2 r have "\<dots> = heap ?g1 r" by simp
    also from r have "\<dots> = heap g r" by simp
    finally show "heap g' r = heap g r" .
  qed
  have first: "burst_particle g' ?p (center_x (heap g e)) (center_y (heap g e))"
  proof -
    from h' n2 have hp: "heap g' ?p = heap g2 ?p" by simp
    from m2 b' have "?p \<in> set (bullet_sprite_list g')" by simp
    with hp c2 v2 x2 show ?thesis
      by (simp add: burst_particle_def)
  qed
  have 4: "\<forall>i. i < Suc n \<longrightarrow>
      burst_particle g' (?p + i) (center_x (heap g e)) (center_y (heap g e))"
  proof (intro allI impI)
    fix i assume i: "i < Suc n"
    show "burst_particle g' (?p + i) (center_x (heap g e)) (center_y (heap g e))"
    proof (cases i)
      case 0
      with first show ?thesis by simp
    next
      case (Suc j)
      with i have "j < n" by simp
      with p' have "burst_particle g' (next_ref g2 + j) (center_x (heap g2 e)) (center_y (heap g2 e))"
        by blast
      with e2 n2 Suc show ?thesis by simp
    qed
  qed
  from 1 2 3 4 show ?case by blast
qed

lemma burst_particle_kept:
  assumes "burst_particle g r x y"
    and "bullet_sprite_list g' = bullet_sprite_list g @ ys"
    and "heap g' r = heap g r"
  shows "burst_particle g' r x y"
  using assms by (simp add: burst_particle_def)

lemma burst_at_kept:
  assumes "burst_at g n x y"
    and "bullet_sprite_list g' = bullet_sprite_list g @ ys"
    and "\<forall>r. r < m \<longrightarrow> heap g' r = heap g r"
    and "n + 10 \<le> m"
  shows "burst_at g' n x y"
  unfolding burst_at_def list_all_iff
proof
  fix r assume r: "r \<in> set [n..<n + 10]"
  with assms(1) have b: "burst_particle g r x y"
    by (simp add: burst_at_def list_all_iff)
  from r assms(4) have "r < m" by simp
  with assms(3) have "heap g' r = heap g r" by simp
  with b assms(2) show "burst_particle g' r x y"
    by (simp add: burst_particle_kept)
qed

lemma spawn_particles_burst:
  assumes "spawn_particles 10 e g rs = Some (g', rs')" and "e < next_ref g"
  shows "burst_at g' (next_ref g) (center_x (heap g e)) (center_y (heap g e))"
proof -
  from spawn_particles_effect[OF assms]
  have "\<forall>i. i < 10 \<longrightarrow>
      burst_particle g' (next_ref g + i) (center_x (heap g e)) (center_y (heap g e))"
    by blast
  then have "\<forall>r\<in>set [next_ref g..<next_ref g + 10].
      burst_particle g' r (center_x (heap g e)) (center_y (heap g e))"
  proof (intro ballI)
    fix r
    assume a: "\<forall>i. i < 10 \<longrightarrow>
      burst_particle g' (next_ref g + i) (center_x (heap g e)) (center_y (heap g e))"
      and r: "r \<in> set [next_ref g..<next_ref g + 10]"
    from r have "r - next_ref g < 10" and "next_ref g + (r - next_ref g) = r"
      by auto
    with a[rule_format, of "r - next_ref g"]
    show "burst_particle g' r (center_x (heap g e)) (center_y (heap g e))"
      by simp
  qed
  then show ?thesis
    by (simp add: burst_at_def list_all_iff)
qed

lemma hit_loop_effect:
  "hit_loop hits g rs = Some (g', rs') \<Longrightarrow>
   \<forall>h\<in>set hits. h < next_ref g \<and> h \<notin> set (bullet_sprite_list g) \<Longrightarrow>
   next_ref g \<le> next_ref g' \<and>
   (\<exists>ys. bullet_sprite_list g' = bullet_sprite_list g @ ys \<and>
         set ys \<subseteq> {next_ref g..<next_ref g'}) \<and>
   (\<forall>r. r < next_ref g \<longrightarrow> heap g' r = heap g r) \<and>
   (\<forall>h\<in>set hits. \<exists>n. next_ref g \<le> n \<and> n + 10 \<le> next_ref g' \<and>
      burst_at g' n (center_x (heap g h)) (center_y (heap g h)))"
proof (induction hits arbitrary: g rs)
  case Nil
  then show ?case by simp
next
  case (Cons h hits)
  let ?g0 = "remove_from_sprite_lists h g"
  from Cons.prems(1) obtain g1 rs1 where
    s: "spawn_particles 10 h ?g0 rs = Some (g1, rs1)" and
    l: "hit_loop hits g1 rs1 = Some (g', rs')"
    by (auto split: option.splits)
  from Cons.prems(2) have h: "h < next_ref g" "h \<notin> set (bullet_sprite_list g)"
    by simp_all
  have g0: "next_ref ?g0 = next_ref g" "heap ?g0 = heap g"
    "bullet_sprite_list ?g0 = bullet_sprite_list g"
    using h(2) by (simp_all add: remove_from_sprite_lists_def)
  from h(1) g0 have h0: "h < next_ref ?g0" by simp
  from spawn_particles_effect[OF s h0] g0 obtain ys1 where
    n1: "next_ref g1 = next_ref g + 10" and
    b1: "bullet_sprite_list g1 = bullet_sprite_list g @ ys1" and
    ys1: "set ys1 \<subseteq> {next_ref g..<next_ref g + 10}" and
    h1: "\<forall>r. r < next_ref g \<longrightarrow> heap g1 r = heap g r"
    by auto
  from spawn_particles_burst[OF s h0] g0
  have burst1: "burst_at g1 (next_ref g) (center_x (heap g h)) (center_y (heap g h))"
    by simp
  have pre: "\<forall>h'\<in>set hits. h' < next_ref g1 \<and> h' \<notin> set (bullet_sprite_list g1)"
  proof
    fix h' assume "h' \<in> set hits"
    with Cons.prems(2) have a: "h' < next_ref g" "h' \<notin> set (bullet_sprite_list g)"
      by simp_all
    from a(1) ys1 have "h' \<notin> set ys1" by auto
    with a n1 b1 show "h' < next_ref g1 \<and> h' \<notin> set (bullet_sprite_list g1)"
      by simp
  qed
  from Cons.IH[OF l pre] obtain ys' where
    n': "next_ref g1 \<le> next_ref g'" and
    b': "bullet_sprite_list g' = bullet_sprite_list g1 @ ys'" and
    ys': "set ys' \<subseteq> {next_ref g1..<next_ref g'}" and
    h': "\<forall>r. r < next_ref g1 \<longrightarrow> heap g' r = heap g1 r" and
    bursts: "\<forall>h'\<in>set hits. \<exists>n. next_ref g1 \<le> n \<and> n + 10 \<le> next_ref g' \<and>
      burst_at g' n (center_x (heap g1 h')) (center_y (heap g1 h'))"
    by blast
  have 1: "next_ref g \<le> next_ref g'"
    using n1 n' by simp
  have "bullet_sprite_list g' = bullet_sprite_list g @ (ys1 @ ys')"
    using b1 b' by simp
  moreover have "set (ys1 @ ys') \<subseteq> {next_ref g..<next_ref g'}"
    using ys1 ys' n1 n' by auto
  ultimately have 2: "\<exists>ys. bullet_sprite_list g' = bullet_sprite_list g @ ys \<and>
         set ys \<subseteq> {next_ref g..<next_ref g'}"
    by blast
  have 3: "\<forall>r. r < next_ref g \<longrightarrow> heap g' r = heap g r"
    using h1 h' n1 by simp
  have 4: "\<forall>x\<in>set (h # hits). \<exists>n. next_ref g \<le> n \<and> n + 10 \<le> next_ref g' \<and>
      burst_at g' n (center_x (heap g x)) (center_y (heap g x))"
  proof
    fix x assume x: "x \<in> set (h # hits)"
    show "\<exists>n. next_ref g \<le> n \<and> n + 10 \<le> next_ref g' \<and>
      burst_at g' n (center_x (heap g x)) (center_y (heap g x))"
    proof (cases "x \<in> set hits")
      case True
      with bursts obtain n where n: "next_ref g1 \<le> n" "n + 10 \<le> next_ref g'"
        "burst_at g' n (center_x (heap g1 x)) (center_y (heap g1 x))"
        by blast
      from True Cons.prems(2) have "x < next_ref g" by simp
      with h1 have "heap g1 x = heap g x" by simp
      with n n1 show ?thesis
        by (intro exI[of _ n]) simp
    next
      case False
      with x have xh: "x = h" by simp
      have "burst_at g' (next_ref g) (center_x (heap g h)) (center_y (heap g h))"
        by (rule burst_at_kept[OF burst1 b' h']) (simp add: n1)
      with n1 n' xh show ?thesis
        by (intro exI[of _ "next_ref g"]) simp
    qed
  qed
  from 1 2 3 4 show ?case by blast
qed

lemma lists_ok_iff:
  "lists_ok g \<longleftrightarrow>
     (\<forall>r\<in>set (bullet_sprite_list g). r < next_ref g \<and> r \<notin> set (enemy_sprite_list g)) \<and>
     (\<forall>r\<in>set (enemy_sprite_list g). r < next_ref g)"
  by (auto simp: lists_ok_def list_all_iff)

lemma bullet_loop_effect:
  "bullet_loop i g rs = Some (g', rs') \<Longrightarrow> lists_ok g \<Longrightarrow>
   lists_ok g' \<and> next_ref g \<le> next_ref g' \<and>
   (\<exists>ys. bullet_sprite_list g' = bullet_sprite_list g @ ys \<and>
         set ys \<subseteq> {next_ref g..<next_ref g'}) \<and>
   (\<forall>r. r < next_ref g \<longrightarrow> heap g' r = heap g r) \<and>
   set (enemy_sprite_list g') \<subseteq> set (enemy_sprite_list g) \<and>
   (\<forall>j e. i \<le> j \<and> j < length (bullet_sprite_list g) \<and> e \<in> set (enemy_sprite_list g) \<and>
      check_for_collision (heap g (bullet_sprite_list g ! j)) (heap g e) \<longrightarrow>
      e \<notin> set (enemy_sprite_list g')) \<and>
   (\<forall>e\<in>set (enemy_sprite_list g) - set (enemy_sprite_list g').
      \<exists>n. next_ref g \<le> n \<and> n + 10 \<le> next_ref g' \<and>
        burst_at g' n (center_x (heap g e)) (center_y (heap g e)))"
proof (induction i g rs arbitrary: g' rs' rule: bullet_loop.induct)
  case (1 i g rs)
  show ?case
  proof (cases "i < length (bullet_sprite_list g)")
    case False
    with "1.prems"(1) have "g' = g"
      by (simp add: bullet_loop.simps)
    with False "1.prems"(2) show ?thesis by simp
  next
    case True
    let ?b = "bullet_sprite_list g ! i"
    let ?hits = "check_for_collision_with_list ?b (enemy_sprite_list g) g"
    from True "1.prems"(1) obtain g1 rs1 where
      hl: "hit_loop ?hits g rs = Some (g1, rs1)" and
      bl: "bullet_loop (Suc i) g1 rs1 = Some (g', rs')"
      by (auto simp: bullet_loop.simps[of i g rs] split: option.splits)
    note ok = "1.prems"(2)[unfolded lists_ok_iff]
    have hits_set: "set ?hits =
        {e \<in> set (enemy_sprite_list g). check_for_collision (heap g ?b) (heap g e)}"
      by (simp add: check_for_collision_with_list_def)
    have pre: "\<forall>h\<in>set ?hits. h < next_ref g \<and> h \<notin> set (bullet_sprite_list g)"
      using ok hits_set by auto
    from hit_loop_effect[OF hl pre] obtain ys1 where
      n1: "next_ref g \<le> next_ref g1" and
      b1: "bullet_sprite_list g1 = bullet_sprite_list g @ ys1" and
      ys1: "set ys1 \<subseteq> {next_ref g..<next_ref g1}" and
      h1: "\<forall>r. r < next_ref g \<longrightarrow> heap g1 r = heap g r" and
      bursts1: "\<forall>h\<in>set ?hits. \<exists>n. next_ref g \<le> n \<and> n + 10 \<le> next_ref g1 \<and>
         burst_at g1 n (center_x (heap g h)) (center_y (heap g h))"
      by blast
    from hit_loop_enemies[OF hl]
    have e1: "set (enemy_sprite_list g1) = set (enemy_sprite_list g) - set ?hits"
      by auto
    have ok1: "lists_ok g1"
      unfolding lists_ok_iff using ok n1 b1 ys1 e1 by fastforce
    from "1.IH"[OF True hl refl bl ok1] obtain ys' where
      ok': "lists_ok g'" and
      n': "next_ref g1 \<le> next_ref g'" and
      b': "bullet_sprite_list g' = bullet_sprite_list g1 @ ys'" and
      ys': "set ys' \<subseteq> {next_ref g1..<next_ref g'}" and
      h': "\<forall>r. r < next_ref g1 \<longrightarrow> heap g' r = heap g1 r" and
      e': "set (enemy_sprite_list g') \<subseteq> set (enemy_sprite_list g1)" and
      coll': "\<forall>j e. Suc i \<le> j \<and> j < length (bullet_sprite_list g1) \<and>
          e \<in> set (enemy_sprite_list g1) \<and>
          check_for_collision (heap g1 (bullet_sprite_list g1 ! j)) (heap g1 e) \<longrightarrow>
          e \<notin> set (enemy_sprite_list g')" and
      bursts': "\<forall>e\<in>set (enemy_sprite_list g1) - set (enemy_sprite_list g').
          \<exists>n. next_ref g1 \<le> n \<and> n + 10 \<le> next_ref g' \<and>
            burst_at g' n (center_x (heap g1 e)) (center_y (heap g1 e))"
      by blast
    have 2: "next_ref g \<le> next_ref g'"
      using n1 n' by simp
    have "bullet_sprite_list g' = bullet_sprite_list g @ (ys1 @ ys')"
      using b1 b' by simp
    moreover have "set (ys1 @ ys') \<subseteq> {next_ref g..<next_ref g'}"
      using ys1 ys' n1 n' by auto
    ultimately have 3: "\<exists>ys. bullet_sprite_list g' = bullet_sprite_list g @ ys \<and>
         set ys \<subseteq> {next_ref g..<next_ref g'}"
      by blast
    have 4: "\<forall>r. r < next_ref g \<longrightarrow> heap g' r = heap g r"
      using h1 h' n1 by simp
    have 5: "set (enemy_sprite_list g') \<subseteq> set (enemy_sprite_list g)"
      using e' e1 by auto
    have 6: "\<forall>j e. i \<le> j \<and> j < length (bullet_sprite_list g) \<and>
        e \<in> set (enemy_sprite_list g) \<and>
        check_for_collision (heap g (bullet_sprite_list g ! j)) (heap g e) \<longrightarrow>
        e \<notin> set (enemy_sprite_list g')"
    proof (intro allI impI, elim conjE)
      fix j e
      assume j: "i \<le> j" "j < length (bullet_sprite_list g)"
        and e: "e \<in> set (enemy_sprite_list g)"
        and c: "check_for_collision (heap g (bullet_sprite_list g ! j)) (heap g e)"
      show "e \<notin> set (enemy_sprite_list g')"
      proof (cases "e \<in> set ?hits")
        case True
        with e1 e' show ?thesis by auto
      next
        case False
        with e c hits_set have "j \<noteq> i" by auto
        with j have j1: "Suc i \<le> j" by simp
        from j b1 have j2: "j < length (bullet_sprite_list g1)"
          and nth: "bullet_sprite_list g1 ! j = bullet_sprite_list g ! j"
          by (simp_all add: nth_append)
        from j ok have "bullet_sprite_list g ! j < next_ref g" by simp
        with h1 have hb: "heap g1 (bullet_sprite_list g ! j) = heap g (bullet_sprite_list g ! j)"
          by simp
        from e ok h1 have he: "heap g1 e = heap g e" by simp
        from False e e1 have m: "e \<in> set (enemy_sprite_list g1)" by simp
        from c nth hb he
        have "check_for_collision (heap g1 (bullet_sprite_list g1 ! j)) (heap g1 e)"
          by simp
        with coll' j1 j2 m show ?thesis by blast
      qed
    qed
    have 7: "\<forall>e\<in>set (enemy_sprite_list g) - set (enemy_sprite_list g').
      \<exists>n. next_ref g \<le> n \<and> n + 10 \<le> next_ref g' \<and>
        burst_at g' n (center_x (heap g e)) (center_y (heap g e))"
    proof
      fix e assume e: "e \<in> set (enemy_sprite_list g) - set (enemy_sprite_list g')"
      with ok h1 have he: "heap g1 e = heap g e" by simp
      show "\<exists>n. next_ref g \<le> n \<and> n + 10 \<le> next_ref g' \<and>
        burst_at g' n (center_x (heap g e)) (center_y (heap g e))"
      proof (cases "e \<in> set ?hits")
        case True
        with bursts1 obtain n where n: "next_ref g \<le> n" "n + 10 \<le> next_ref g1"
          "burst_at g1 n (center_x (heap g e)) (center_y (heap g e))"
          by blast
        have "burst_at g' n (center_x (heap g e)) (center_y (heap g e))"
          by (rule burst_at_kept[OF n(3) b' h' n(2)])
        with n n' show ?thesis
          by (intro exI[of _ n]) simp
      next
        case False
        with e e1 have "e \<in> set (enemy_sprite_list g1) - set (enemy_sprite_list g')"
          by simp
        with bursts' obtain n where "next_ref g1 \<le> n" "n + 10 \<le> next_ref g'"
          "burst_at g' n (center_x (heap g1 e)) (center_y (heap g1 e))"
          by blast
        with he n1 show ?thesis
          by (intro exI[of _ n]) simp
      qed
    qed
    from ok' 2 3 4 5 6 7 show ?thesis by blast
  qed
qed

section \<open>The collision loop returns when the rolls suffice\<close>

lemma reroll_returns:
  "0 < nonzero_pairs rs \<Longrightarrow>
   \<exists>g' rs'. reroll p e g rs = Some (g', rs') \<and> nonzero_pairs rs \<le> Suc (nonzero_pairs rs')"
proof (induction p e g rs rule: reroll.induct)
  case (1 p e g rs)
  show ?case
  proof (cases "change_y (heap g p) = 0 \<and> change_x (heap g p) = 0")
    case False
    then have "reroll p e g rs = Some (g, rs)"
      by (subst reroll.simps) auto
    then show ?thesis by simp
  next
    case True
    from "1.prems" obtain dy dx rs0 where rs: "rs = dy # dx # rs0"
      by (cases rs rule: nonzero_pairs.cases) auto
    let ?g1 = "g\<lparr>heap := (heap g)(p := (heap g p)
                  \<lparr>change_y := of_int dy, change_x := of_int dx,
                   center_x := center_x (heap g e),
                   center_y := center_y (heap g e)\<rparr>),
                bullet_sprite_list := bullet_sprite_list g @ [p]\<rparr>"
    from True rs have step: "reroll p e g rs = reroll p e ?g1 rs0"
      by (simp add: reroll.simps[of p e g])
    show ?thesis
    proof (cases "dy = 0 \<and> dx = 0")
      case True
      with "1.prems" rs have "0 < nonzero_pairs rs0" by simp
      from "1.IH"[OF \<open>change_y (heap g p) = 0 \<and> change_x (heap g p) = 0\<close> rs refl this]
      obtain g' rs' where "reroll p e ?g1 rs0 = Some (g', rs')"
        "nonzero_pairs rs0 \<le> Suc (nonzero_pairs rs')"
        by blast
      with step True rs show ?thesis by simp
    next
      case False
      then have "\<not> (change_y (heap ?g1 p) = 0 \<and> change_x (heap ?g1 p) = 0)"
        by simp
      then have "reroll p e ?g1 rs0 = Some (?g1, rs0)"
        by (subst reroll.simps) auto
      with step False rs show ?thesis by simp
    qed
  qed
qed

lemma spawn_particles_returns:
  "n \<le> nonzero_pairs rs \<Longrightarrow>
   \<exists>g' rs'. spawn_particles n e g rs = Some (g', rs') \<and>
     nonzero_pairs rs \<le> n + nonzero_pairs rs'"
proof (induction n arbitrary: g rs)
  case 0
  then show ?case by simp
next
  case (Suc n)
  obtain p g1 where pn: "Particle_new g = (p, g1)"
    by (cases "Particle_new g")
  from Suc.prems have "0 < nonzero_pairs rs" by simp
  from reroll_returns[OF this, of p e g1] obtain g2 rs2 where
    r: "reroll p e g1 rs = Some (g2, rs2)" and
    c: "nonzero_pairs rs \<le> Suc (nonzero_pairs rs2)"
    by blast
  from Suc.prems c have "n \<le> nonzero_pairs rs2" by simp
  from Suc.IH[OF this, of g2] obtain g' rs' where
    s: "spawn_particles n e g2 rs2 = Some (g', rs')" and
    c': "nonzero_pairs rs2 \<le> n + nonzero_pairs rs'"
    by blast
  from pn r s have "spawn_particles (Suc n) e g rs = Some (g', rs')"
    by simp
  with c c' show ?case by simp
qed

lemma hit_loop_returns:
  "10 * length hits \<le> nonzero_pairs rs \<Longrightarrow>
   \<exists>g' rs'. hit_loop hits g rs = Some (g', rs') \<and>
     nonzero_pairs rs \<le> 10 * length hits + nonzero_pairs rs'"
proof (induction hits arbitrary: g rs)
  case Nil
  then show ?case by simp
next
  case (Cons h hits)
  from Cons.prems have "10 \<le> nonzero_pairs rs" by simp
  from spawn_particles_returns[OF this, of h "remove_from_sprite_lists h g"]
  obtain g1 rs1 where
    s: "spawn_particles 10 h (remove_from_sprite_lists h g) rs = Some (g1, rs1)" and
    c: "nonzero_pairs rs \<le> 10 + nonzero_pairs rs1"
    by blast
  from Cons.prems c have "10 * length hits \<le> nonzero_pairs rs1" by simp
  from Cons.IH[OF this, of g1] obtain g' rs' where
    l: "hit_loop hits g1 rs1 = Some (g', rs')" and
    c': "nonzero_pairs rs1 \<le> 10 * length hits + nonzero_pairs rs'"
    by blast
  from s l have "hit_loop (h # hits) g rs = Some (g', rs')"
    by simp
  with c c' show ?case by simp
qed

lemma length_filter_hits:
  "length (filter (\<lambda>e. e \<notin> set (filter P xs)) xs) + length (filter P xs) = length xs"
proof -
  have "filter (\<lambda>e. e \<notin> set (filter P xs)) xs = filter (\<lambda>e. \<not> P e) xs"
    by (rule filter_cong) auto
  then show ?thesis
    by (simp add: sum_length_filter_compl add.commute)
qed

lemma bullet_loop_returns:
  "10 * length (enemy_sprite_list g) \<le> nonzero_pairs rs \<Longrightarrow>
   \<exists>g' rs'. bullet_loop i g rs = Some (g', rs')"
proof (induction i g rs rule: bullet_loop.induct)
  case (1 i g rs)
  show ?case
  proof (cases "i < length (bullet_sprite_list g)")
    case False
    then show ?thesis by (simp add: bullet_loop.simps)
  next
    case True
    let ?hits = "check_for_collision_with_list (bullet_sprite_list g ! i) (enemy_sprite_list g) g"
    have len: "length (filter (\<lambda>e. e \<notin> set ?hits) (enemy_sprite_list g)) + length ?hits =
        length (enemy_sprite_list g)"
      unfolding check_for_collision_with_list_def by (rule length_filter_hits)
    with "1.prems" have "10 * length ?hits \<le> nonzero_pairs rs" by simp
    from hit_loop_returns[OF this, of g] obtain g1 rs1 where
      hl: "hit_loop ?hits g rs = Some (g1, rs1)" and
      c: "nonzero_pairs rs \<le> 10 * length ?hits + nonzero_pairs rs1"
      by blast
    from hit_loop_enemies[OF hl] len
    have "length (enemy_sprite_list g1) + length ?hits = length (enemy_sprite_list g)"
      by simp
    with "1.prems" c have "10 * length (enemy_sprite_list g1) \<le> nonzero_pairs rs1"
      by simp
    from "1.IH"[OF True hl refl this] obtain g' rs' where
      "bullet_loop (Suc i) g1 rs1 = Some (g', rs')"
      by blast
    with True hl have "bullet_loop i g rs = Some (g', rs')"
      by (simp add: bullet_loop.simps[of i g rs])
    then show ?thesis by blast
  qed
qed

section \<open>Particles are bullets\<close>

text \<open>
  Claim C2. The particles of a burst go into the bullet list (the game has no list of
  particles), and the collision loop treats every entry of that list alike. So in every
  later tick a particle that is still in the list is tested against the enemies like any
  bullet: if a particle \<open>p\<close> of the bullet list overlaps an enemy \<open>e\<close> when the
  collision loop starts, then in whatever state the loop returns \<open>e\<close> is gone from the
  enemy list and a further burst of ten particles at the position of \<open>e\<close>, each with a
  velocity other than zero, is in the bullet list, next to \<open>p\<close> itself. The loop does
  return when the rolls hold ten pairs other than \<open>(0, 0)\<close> for every enemy.
\<close>

theorem particle_hits_enemy:
  assumes "lists_ok g"
    and "p \<in> set (bullet_sprite_list g)" and "cls (heap g p) = Particle"
    and "e \<in> set (enemy_sprite_list g)"
    and "check_for_collision (heap g p) (heap g e)"
  shows "(10 * length (enemy_sprite_list g) \<le> nonzero_pairs rs \<longrightarrow>
            on_update_collisions g rs \<noteq> None) \<and>
         (\<forall>g' rs'. on_update_collisions g rs = Some (g', rs') \<longrightarrow>
            e \<notin> set (enemy_sprite_list g') \<and>
            p \<in> set (bullet_sprite_list g') \<and>
            (\<exists>n. next_ref g \<le> n \<and>
               burst_at g' n (center_x (heap g e)) (center_y (heap g e))))"
proof (intro conjI allI impI)
  assume "10 * length (enemy_sprite_list g) \<le> nonzero_pairs rs"
  from bullet_loop_returns[OF this, of 0] show "on_update_collisions g rs \<noteq> None"
    by (auto simp: on_update_collisions_def)
next
  fix g' rs'
  assume "on_update_collisions g rs = Some (g', rs')"
  then have run: "bullet_loop 0 g rs = Some (g', rs')"
    by (simp add: on_update_collisions_def)
  note eff = bullet_loop_effect[OF run assms(1)]
  from assms(2) obtain j where j: "j < length (bullet_sprite_list g)"
    "bullet_sprite_list g ! j = p"
    by (auto simp: in_set_conv_nth)
  from eff j assms(4,5) show gone: "e \<notin> set (enemy_sprite_list g')"
    by auto
  from eff assms(2) show "p \<in> set (bullet_sprite_list g')"
    by auto
  from gone assms(4) have "e \<in> set (enemy_sprite_list g) - set (enemy_sprite_list g')"
    by simp
  with eff show "\<exists>n. next_ref g \<le> n \<and>
      burst_at g' n (center_x (heap g e)) (center_y (heap g e))"
    by blast
qed

theorem particle_hits_enemy_witness:
  "lists_ok game_particle_on_enemy \<and>
   0 \<in> set (bullet_sprite_list game_particle_on_enemy) \<and>
   cls (heap game_particle_on_enemy 0) = Particle \<and>
   1 \<in> set (enemy_sprite_list game_particle_on_enemy) \<and>
   check_for_collision (heap game_particle_on_enemy 0) (heap game_particle_on_enemy 1) \<and>
   10 * length (enemy_sprite_list game_particle_on_enemy) \<le> nonzero_pairs rolls_ten \<and>
   (\<exists>g' rs'. on_update_collisions game_particle_on_enemy rolls_ten = Some (g', rs') \<and>
      1 \<notin> set (enemy_sprite_list g') \<and> 0 \<in> set (bullet_sprite_list g') \<and>
      (\<exists>n. 2 \<le> n \<and> burst_at g' n 110 100))"
proof -
  have ok: "lists_ok game_particle_on_enemy"
    by (simp add: lists_ok_def game_particle_on_enemy_def)
  have p: "0 \<in> set (bullet_sprite_list game_particle_on_enemy)"
    by (simp add: game_particle_on_enemy_def)
  have c: "cls (heap game_particle_on_enemy 0) = Particle"
    by (simp add: game_particle_on_enemy_def SpriteSolidColor_init_def)
  have e: "1 \<in> set (enemy_sprite_list game_particle_on_enemy)"
    by (simp add: game_particle_on_enemy_def)
  have o: "check_for_collision (heap game_particle_on_enemy 0) (heap game_particle_on_enemy 1)"
    by (simp add: game_particle_on_enemy_def SpriteSolidColor_init_def
        check_for_collision_def edges)
  have r: "10 * length (enemy_sprite_list game_particle_on_enemy) \<le> nonzero_pairs rolls_ten"
    by (simp add: game_particle_on_enemy_def rolls_ten_def)
  have s: "next_ref game_particle_on_enemy = 2 \<and>
      center_x (heap game_particle_on_enemy 1) = 110 \<and>
      center_y (heap game_particle_on_enemy 1) = 100"
    by (simp add: game_particle_on_enemy_def SpriteSolidColor_init_def)
  note t = particle_hits_enemy[OF ok p c e o, of rolls_ten]
  from t r obtain g' rs' where
    run: "on_update_collisions game_particle_on_enemy rolls_ten = Some (g', rs')"
    by auto
  with t s have "1 \<notin> set (enemy_sprite_list g') \<and> 0 \<in> set (bullet_sprite_list g') \<and>
      (\<exists>n. 2 \<le> n \<and> burst_at g' n 110 100)"
    by simp
  with run ok p c e o r show ?thesis
    by blast
qed

section \<open>One enemy, eleven new entries\<close>

lemma spawn_particles_numeral:
  "spawn_particles (numeral k) e g rs =
     (case Particle_new g of
        (particle, g1) \<Rightarrow>
          (case reroll particle e g1 rs of
             None \<Rightarrow> None
           | Some (g2, rs2) \<Rightarrow> spawn_particles (pred_numeral k) e g2 rs2))"
  by (simp add: numeral_eq_Suc)

text \<open>
  Claim C1, at an input where the code departs from it. One bullet overlaps one enemy.
  The collision loop removes the enemy and makes ten particles (objects 2 to 11), but
  the bullet list grows by eleven entries, not ten: the first roll of the first
  particle is \<open>(0, 0)\<close>, the \<^verbatim>\<open>while\<close> loop runs a second time, and its body appends
  the particle once per run, so object 2 is in the list twice.
\<close>

theorem burst_appends_rerolled_particle_twice:
  "bullet_sprite_list game_hit = [0] \<and> enemy_sprite_list game_hit = [1] \<and>
   check_for_collision (heap game_hit 0) (heap game_hit 1) \<and>
   map_option (\<lambda>(g, rs). (bullet_sprite_list g, enemy_sprite_list g, next_ref g, rs))
     (on_update_collisions game_hit rolls_zero_first) =
   Some ([0, 2, 2, 3, 4, 5, 6, 7, 8, 9, 10, 11], [], 12, [])"
  by (simp add: on_update_collisions_def game_hit_def rolls_zero_first_def game0_def
      bullet_loop.simps check_for_collision_with_list_def check_for_collision_def edges
      remove_from_sprite_lists_def Particle_new_def SpriteSolidColor_init_def reroll.simps
      spawn_particles_numeral)

end
